theory Spec2Isabelle
  imports Main "HOL-Library.Word" "HOL-Library.AList" "HOL-Library.Signed_Division"
begin

section \<open>Data model\<close>

text \<open>
  Go's \<open>int\<close> is a 64-bit two's-complement integer on the usual 64-bit targets:
  \<open>+\<close> wraps around, \<open><\<close> compares the signed values.
\<close>

type_synonym gint = "64 word"

text \<open>
  \<^verbatim>\<open>type Cell struct { alive bool; n int }\<close> and
  \<^verbatim>\<open>type Coord struct { x int; y int }\<close>.
  The fields \<open>n\<close>, \<open>x\<close>, \<open>y\<close> are called \<open>cnt\<close>, \<open>cx\<close>, \<open>cy\<close> here, so that
  the one-letter names stay free for variables.
\<close>

record Cell =
  alive :: bool
  cnt :: gint

record Coord =
  cx :: gint
  cy :: gint

text \<open>
  \<^verbatim>\<open>type World map[Coord]Cell\<close>. A Go map holds each key once and \<open>range\<close> visits
  its entries in an order the language leaves open. A world is modelled by the list of its
  entries in the order in which \<open>range\<close> visits them; \<open>wf_world\<close> says that the keys are
  unique. Two lists denote the same Go map when \<open>map_of\<close> maps them to the same function.
\<close>

type_synonym World = "(Coord \<times> Cell) list"

definition wf_world :: "World \<Rightarrow> bool" where
  "wf_world world = distinct (map fst world)"

text \<open>\<^verbatim>\<open>world[c]\<close>: a missing key reads as the zero value \<^verbatim>\<open>Cell{false, 0}\<close>.\<close>

definition lookup :: "World \<Rightarrow> Coord \<Rightarrow> Cell" where
  "lookup world c =
     (case map_of world c of None \<Rightarrow> \<lparr>alive = False, cnt = 0\<rparr> | Some cell \<Rightarrow> cell)"

text \<open>\<^verbatim>\<open>_, found := world[c]\<close>.\<close>

definition found :: "World \<Rightarrow> Coord \<Rightarrow> bool" where
  "found world c = (map_of world c \<noteq> None)"

text \<open>
  \<^verbatim>\<open>world[c] = cell\<close> is \<^term>\<open>AList.update c cell world\<close>: the value of an
  existing key is replaced where it stands, a new key is added.
\<close>

text \<open>
  The pairs \<open>(i, j)\<close> in the order in which
  \<^verbatim>\<open>for i := -1; i < 2; i++ { for j := -1; j < 2; j++ { ... } }\<close> runs through them.
\<close>

definition offsets :: "(gint \<times> gint) list" where
  "offsets = [(- 1, - 1), (- 1, 0), (- 1, 1), (0, - 1), (0, 0), (0, 1), (1, - 1), (1, 0), (1, 1)]"

section \<open>The stages (staged variant)\<close>

text \<open>Body of the inner loops of \<open>Inflate\<close>, for one pair \<open>(i, j)\<close>.\<close>

fun Inflate_neighbour :: "Coord \<Rightarrow> gint \<times> gint \<Rightarrow> World \<Rightarrow> World" where
  "Inflate_neighbour coord (i, j) newWorld =
     (let c = \<lparr>cx = cx coord + i, cy = cy coord + j\<rparr>
      in if \<not> found newWorld c then AList.update c \<lparr>alive = False, cnt = 0\<rparr> newWorld
         else newWorld)"

text \<open>Body of the outer loop of \<open>Inflate\<close>, for one entry of the world.\<close>

fun Inflate_entry :: "Coord \<times> Cell \<Rightarrow> World \<Rightarrow> World" where
  "Inflate_entry (coord, cell) newWorld =
     fold (Inflate_neighbour coord) offsets (AList.update coord cell newWorld)"

definition Inflate :: "World \<Rightarrow> World" where
  "Inflate world = fold Inflate_entry world []"

fun Deflate_entry :: "Coord \<times> Cell \<Rightarrow> World \<Rightarrow> World" where
  "Deflate_entry (coord, cell) newWorld =
     (if alive cell then AList.update coord cell newWorld else newWorld)"

definition Deflate :: "World \<Rightarrow> World" where
  "Deflate world = fold Deflate_entry world []"

text \<open>Body of the inner loops that count: \<open>n\<close> is the running count.\<close>

fun count_neighbour :: "World \<Rightarrow> Coord \<Rightarrow> gint \<times> gint \<Rightarrow> gint \<Rightarrow> gint" where
  "count_neighbour world coord (i, j) n =
     (let c = \<lparr>cx = cx coord + i, cy = cy coord + j\<rparr>
      in if (i \<noteq> 0 \<or> j \<noteq> 0) \<and> alive (lookup world c) then n + 1 else n)"

definition live_neighbours :: "World \<Rightarrow> Coord \<Rightarrow> gint" where
  "live_neighbours world coord = fold (count_neighbour world coord) offsets 0"

fun Count_entry :: "World \<Rightarrow> Coord \<times> Cell \<Rightarrow> World \<Rightarrow> World" where
  "Count_entry world (coord, cell) newWorld =
     AList.update coord \<lparr>alive = alive cell, cnt = live_neighbours world coord\<rparr> newWorld"

definition CountLiveNeighbours :: "World \<Rightarrow> World" where
  "CountLiveNeighbours world = fold (Count_entry world) world []"

fun Rules_entry :: "Coord \<times> Cell \<Rightarrow> World \<Rightarrow> World" where
  "Rules_entry (coord, cell) newWorld =
     (if alive cell then
        (if 1 <s cnt cell \<and> cnt cell <s 4
         then AList.update coord \<lparr>alive = True, cnt = 0\<rparr> newWorld
         else newWorld)
      else
        (if cnt cell = 3
         then AList.update coord \<lparr>alive = True, cnt = 0\<rparr> newWorld
         else newWorld))"

definition ApplyRules :: "World \<Rightarrow> World" where
  "ApplyRules world = fold Rules_entry world []"

definition Tick :: "World \<Rightarrow> World" where
  "Tick world = Deflate (ApplyRules (CountLiveNeighbours (Inflate world)))"

section \<open>The single-file variant\<close>

text \<open>
  The first loop of the single-file \<open>Tick\<close> stores the count into the map it ranges over:
  \<^verbatim>\<open>world[coord] = Cell{cell.alive, n}\<close>. The state of the loop is that map; the entries
  visited are those of the map at entry, since the loop adds no key and changes an entry
  only when it visits it.
\<close>

fun Recount_entry :: "Coord \<times> Cell \<Rightarrow> World \<Rightarrow> World" where
  "Recount_entry (coord, cell) world =
     AList.update coord \<lparr>alive = alive cell, cnt = live_neighbours world coord\<rparr> world"

definition count_in_place :: "World \<Rightarrow> World" where
  "count_in_place world = fold Recount_entry world world"

text \<open>The second loop is the loop of \<open>ApplyRules\<close>, over the map the first loop left.\<close>

definition Tick_in_place :: "World \<Rightarrow> World" where
  "Tick_in_place world = fold Rules_entry (count_in_place world) []"

text \<open>\<^verbatim>\<open>world.Inflate().Tick().Deflate()\<close>, one generation of the single-file variant.\<close>

definition generation :: "World \<Rightarrow> World" where
  "generation world = Deflate (Tick_in_place (Inflate world))"

section \<open>The specification's notions\<close>

definition live :: "World \<Rightarrow> Coord \<Rightarrow> bool" where
  "live world c = (\<exists>cell. map_of world c = Some cell \<and> alive cell)"

text \<open>
  The grid of the specification is the unbounded integer grid. A coordinate of the program
  names the cell whose integer coordinates are the signed values of its two fields; the
  cells that no coordinate names are in no world. The Moore neighbourhood of a cell: the
  cells other than itself whose two integer coordinates differ from its own by at most one.
\<close>

definition moore :: "Coord \<Rightarrow> Coord set" where
  "moore c =
     {d. d \<noteq> c \<and> \<bar>sint (cx d) - sint (cx c)\<bar> \<le> 1 \<and> \<bar>sint (cy d) - sint (cy c)\<bar> \<le> 1}"

definition live_moore :: "World \<Rightarrow> Coord \<Rightarrow> nat" where
  "live_moore world c = card {d \<in> moore c. live world d}"

text \<open>
  The neighbourhood on the 64-bit coordinates with wrap-around, where the greatest and the
  least value of a field are next to each other: the cells that \<^verbatim>\<open>coord.x + i\<close>,
  \<^verbatim>\<open>coord.y + j\<close> reach.
\<close>

definition moore_wrap :: "Coord \<Rightarrow> Coord set" where
  "moore_wrap c = {d. d \<noteq> c \<and> cx d - cx c \<in> {- 1, 0, 1} \<and> cy d - cy c \<in> {- 1, 0, 1}}"

definition live_wrap :: "World \<Rightarrow> Coord \<Rightarrow> nat" where
  "live_wrap world c = card {d \<in> moore_wrap c. live world d}"

text \<open>B3/S23 with the wrap-around neighbourhood.\<close>

definition next_alive :: "World \<Rightarrow> Coord \<Rightarrow> bool" where
  "next_alive world c =
     (if live world c then live_wrap world c = 2 \<or> live_wrap world c = 3
      else live_wrap world c = 3)"

text \<open>
  A world all of whose live cells lie strictly inside the 64-bit range: no field of a live
  cell is the least value \<open>-2^63\<close> or the greatest value \<open>2^63 - 1\<close> of a Go \<open>int\<close>.
\<close>

definition inside :: "World \<Rightarrow> bool" where
  "inside world =
     (\<forall>d. live world d \<longrightarrow>
        - (2 ^ 63) < sint (cx d) \<and> sint (cx d) < 2 ^ 63 - 1
        \<and> - (2 ^ 63) < sint (cy d) \<and> sint (cy d) < 2 ^ 63 - 1)"

text \<open>A pattern moved by \<open>(dx, dy)\<close>.\<close>

definition translate :: "gint \<Rightarrow> gint \<Rightarrow> World \<Rightarrow> World" where
  "translate dx dy world =
     map (\<lambda>(c, cell). (\<lparr>cx = cx c + dx, cy = cy c + dy\<rparr>, cell)) world"

text \<open>
  The live cells of a world as points of the integer grid; a set of points moved by the
  integer offset \<open>(dx, dy)\<close>; and the worlds that can be moved by \<open>(dx, dy)\<close> without a
  live cell leaving the 64-bit range.
\<close>

definition points :: "World \<Rightarrow> (int \<times> int) set" where
  "points world = (\<lambda>c. (sint (cx c), sint (cy c))) ` {c. live world c}"

definition shift :: "int \<Rightarrow> int \<Rightarrow> (int \<times> int) set \<Rightarrow> (int \<times> int) set" where
  "shift dx dy S = (\<lambda>(a, b). (a + dx, b + dy)) ` S"

definition fits :: "int \<Rightarrow> int \<Rightarrow> World \<Rightarrow> bool" where
  "fits dx dy world =
     (\<forall>c. live world c \<longrightarrow>
        - (2 ^ 63) \<le> sint (cx c) + dx \<and> sint (cx c) + dx < 2 ^ 63
        \<and> - (2 ^ 63) \<le> sint (cy c) + dy \<and> sint (cy c) + dy < 2 ^ 63)"

section \<open>Patterns\<close>

text \<open>
  \<^verbatim>\<open>for _, coord := range pattern { world[coord] = Cell{true, 0} }\<close>, starting from the
  empty map: the world that \<open>main\<close> builds from a list of coordinates.
\<close>

fun set_alive :: "Coord \<Rightarrow> World \<Rightarrow> World" where
  "set_alive coord world = AList.update coord \<lparr>alive = True, cnt = 0\<rparr> world"

definition world_of :: "Coord list \<Rightarrow> World" where
  "world_of pattern = fold set_alive pattern []"

text \<open>
  The pattern that \<open>main\<close> of the single-file variant stores, and the default of the flags
  \<open>pattern\<close> and \<open>coordinates\<close>: \<^verbatim>\<open>1,0;0,1;1,1;1,2;2,2\<close>.
\<close>

definition default_pattern :: "Coord list" where
  "default_pattern =
     [\<lparr>cx = 1, cy = 0\<rparr>, \<lparr>cx = 0, cy = 1\<rparr>, \<lparr>cx = 1, cy = 1\<rparr>, \<lparr>cx = 1, cy = 2\<rparr>,
      \<lparr>cx = 2, cy = 2\<rparr>]"

text \<open>The blinker \<open>{(0,0), (1,0), (2,0)}\<close> of the specification's oscillator scenario.\<close>

definition blinker :: "Coord list" where
  "blinker = [\<lparr>cx = 0, cy = 0\<rparr>, \<lparr>cx = 1, cy = 0\<rparr>, \<lparr>cx = 2, cy = 0\<rparr>]"

text \<open>The world that holds exactly the listed coordinates, each with \<^verbatim>\<open>Cell{true, 0}\<close>.\<close>

definition cells :: "(gint \<times> gint) list \<Rightarrow> World" where
  "cells ps = map (\<lambda>(a, b). (\<lparr>cx = a, cy = b\<rparr>, \<lparr>alive = True, cnt = 0\<rparr>)) ps"

text \<open>
  Three cells in a row across the edge of the 64-bit range:
  \<open>(2^63 - 2, 0)\<close>, \<open>(2^63 - 1, 0)\<close> and \<open>(-2^63, 0)\<close>.
\<close>

definition seam :: World where
  "seam = cells [(9223372036854775806, 0), (9223372036854775807, 0), (- 9223372036854775808, 0)]"

section \<open>Auxiliary notions of the proofs\<close>

text \<open>The coordinates that the inner loops reach from \<open>k\<close> with the offsets \<open>offs\<close>.\<close>

definition around :: "Coord \<Rightarrow> (gint \<times> gint) list \<Rightarrow> Coord set" where
  "around k offs = (\<lambda>(i, j). \<lparr>cx = cx k + i, cy = cy k + j\<rparr>) ` set offs"

text \<open>The test that \<open>ApplyRules\<close> makes on a cell.\<close>

definition passes :: "Cell \<Rightarrow> bool" where
  "passes cell = (if alive cell then 1 <s cnt cell \<and> cnt cell <s 4 else cnt cell = 3)"

text \<open>The offsets, other than \<open>(0, 0)\<close>, that lead from \<open>c\<close> to a live cell.\<close>

definition live_offsets :: "World \<Rightarrow> Coord \<Rightarrow> (gint \<times> gint) list" where
  "live_offsets W c =
     filter (\<lambda>(i, j). (i \<noteq> 0 \<or> j \<noteq> 0) \<and> live W \<lparr>cx = cx c + i, cy = cy c + j\<rparr>) offsets"

section \<open>Maps as references\<close>

text \<open>
  A Go map value is a reference: the receiver \<open>world\<close> of a method and the variable of the
  caller denote the same map, and a store through one is seen through the other. The store
  gives the entries of the map at each address; \<^verbatim>\<open>make(World)\<close> hands out the next address,
  with an empty map there.
\<close>

record heap =
  content :: "nat \<Rightarrow> World"
  next_addr :: nat

definition make :: "heap \<Rightarrow> nat \<times> heap" where
  "make h =
     (next_addr h,
      h\<lparr>content := (content h)(next_addr h := []), next_addr := Suc (next_addr h)\<rparr>)"

text \<open>\<^verbatim>\<open>m[c] = v\<close> for the map at the address \<open>m\<close>.\<close>

definition put :: "nat \<Rightarrow> Coord \<Rightarrow> Cell \<Rightarrow> heap \<Rightarrow> heap" where
  "put m c v h = h\<lparr>content := (content h)(m := AList.update c v (content h m))\<rparr>"

text \<open>
  The methods on the store. Each takes the address of its receiver and returns the address
  of the map it returns; the loops are those of the sections above, with every read and
  store made through the addresses.
\<close>

fun Inflate_neighbour_at :: "nat \<Rightarrow> Coord \<Rightarrow> gint \<times> gint \<Rightarrow> heap \<Rightarrow> heap" where
  "Inflate_neighbour_at newWorld coord (i, j) h =
     (let c = \<lparr>cx = cx coord + i, cy = cy coord + j\<rparr>
      in if \<not> found (content h newWorld) c then put newWorld c \<lparr>alive = False, cnt = 0\<rparr> h
         else h)"

fun Inflate_entry_at :: "nat \<Rightarrow> Coord \<times> Cell \<Rightarrow> heap \<Rightarrow> heap" where
  "Inflate_entry_at newWorld (coord, cell) h =
     fold (Inflate_neighbour_at newWorld coord) offsets (put newWorld coord cell h)"

definition Inflate_at :: "nat \<Rightarrow> heap \<Rightarrow> nat \<times> heap" where
  "Inflate_at world h =
     (case make h of (newWorld, h') \<Rightarrow>
        (newWorld, fold (Inflate_entry_at newWorld) (content h' world) h'))"

fun Deflate_entry_at :: "nat \<Rightarrow> Coord \<times> Cell \<Rightarrow> heap \<Rightarrow> heap" where
  "Deflate_entry_at newWorld (coord, cell) h =
     (if alive cell then put newWorld coord cell h else h)"

definition Deflate_at :: "nat \<Rightarrow> heap \<Rightarrow> nat \<times> heap" where
  "Deflate_at world h =
     (case make h of (newWorld, h') \<Rightarrow>
        (newWorld, fold (Deflate_entry_at newWorld) (content h' world) h'))"

text \<open>
  The body of the counting loop reads the map at \<open>world\<close> and stores into the map at
  \<open>newWorld\<close>. In \<open>CountLiveNeighbours\<close> the second is a new map; in the \<open>Tick\<close> of the
  single-file variant it is \<open>world\<close> itself.
\<close>

fun Count_entry_at :: "nat \<Rightarrow> nat \<Rightarrow> Coord \<times> Cell \<Rightarrow> heap \<Rightarrow> heap" where
  "Count_entry_at world newWorld (coord, cell) h =
     put newWorld coord \<lparr>alive = alive cell, cnt = live_neighbours (content h world) coord\<rparr> h"

definition CountLiveNeighbours_at :: "nat \<Rightarrow> heap \<Rightarrow> nat \<times> heap" where
  "CountLiveNeighbours_at world h =
     (case make h of (newWorld, h') \<Rightarrow>
        (newWorld, fold (Count_entry_at world newWorld) (content h' world) h'))"

fun Rules_entry_at :: "nat \<Rightarrow> Coord \<times> Cell \<Rightarrow> heap \<Rightarrow> heap" where
  "Rules_entry_at newWorld (coord, cell) h =
     (if alive cell then
        (if 1 <s cnt cell \<and> cnt cell <s 4
         then put newWorld coord \<lparr>alive = True, cnt = 0\<rparr> h
         else h)
      else
        (if cnt cell = 3
         then put newWorld coord \<lparr>alive = True, cnt = 0\<rparr> h
         else h))"

definition ApplyRules_at :: "nat \<Rightarrow> heap \<Rightarrow> nat \<times> heap" where
  "ApplyRules_at world h =
     (case make h of (newWorld, h') \<Rightarrow>
        (newWorld, fold (Rules_entry_at newWorld) (content h' world) h'))"

text \<open>\<^verbatim>\<open>world.Inflate().CountLiveNeighbours().ApplyRules().Deflate()\<close>.\<close>

definition Tick_at :: "nat \<Rightarrow> heap \<Rightarrow> nat \<times> heap" where
  "Tick_at world h =
     (case Inflate_at world h of (w1, h1) \<Rightarrow>
      case CountLiveNeighbours_at w1 h1 of (w2, h2) \<Rightarrow>
      case ApplyRules_at w2 h2 of (w3, h3) \<Rightarrow>
        Deflate_at w3 h3)"

text \<open>
  The \<open>Tick\<close> of the single-file variant: the first loop ranges over the map at \<open>world\<close> and
  stores into it, then \<open>newWorld\<close> is made and the second loop fills it.
\<close>

definition Tick_in_place_at :: "nat \<Rightarrow> heap \<Rightarrow> nat \<times> heap" where
  "Tick_in_place_at world h =
     (let h1 = fold (Count_entry_at world world) (content h world) h
      in case make h1 of (newWorld, h2) \<Rightarrow>
           (newWorld, fold (Rules_entry_at newWorld) (content h2 world) h2))"

text \<open>\<^verbatim>\<open>world.Inflate().Tick().Deflate()\<close>.\<close>

definition generation_at :: "nat \<Rightarrow> heap \<Rightarrow> nat \<times> heap" where
  "generation_at world h =
     (case Inflate_at world h of (w1, h1) \<Rightarrow>
      case Tick_in_place_at w1 h1 of (w2, h2) \<Rightarrow>
        Deflate_at w2 h2)"

text \<open>
  Every map that exists in \<open>h\<close> has the same entries in \<open>h'\<close>; and the same for every map
  but the one at \<open>world\<close>.
\<close>

definition keeps :: "heap \<Rightarrow> heap \<Rightarrow> bool" where
  "keeps h h' = (\<forall>a. a < next_addr h \<longrightarrow> content h' a = content h a)"

definition keeps_but :: "nat \<Rightarrow> heap \<Rightarrow> heap \<Rightarrow> bool" where
  "keeps_but world h h' =
     (\<forall>a. a < next_addr h \<longrightarrow> a \<noteq> world \<longrightarrow> content h' a = content h a)"

text \<open>A store with one map, at address \<open>0\<close>: two live cells side by side.\<close>

definition two_cells :: heap where
  "two_cells = \<lparr>content = (\<lambda>a. [])(0 := cells [(0, 0), (1, 0)]), next_addr = 1\<rparr>"

section \<open>Maps built by the loops\<close>

lemma Coord_eta: "\<lparr>cx = cx d, cy = cy d\<rparr> = (d :: Coord)"
  by simp

lemma live_lookup: "live world c = alive (lookup world c)"
  by (simp add: live_def lookup_def split: option.split)

lemma wf_update: "wf_world w \<Longrightarrow> wf_world (AList.update k v w)"
  by (simp add: wf_world_def distinct_update)

lemma wf_Nil: "wf_world []"
  by (simp add: wf_world_def)

lemma around_Nil: "around k [] = {}"
  by (simp add: around_def)

lemma around_Cons: "around k ((i, j) # offs) = insert \<lparr>cx = cx k + i, cy = cy k + j\<rparr> (around k offs)"
  by (simp add: around_def)

lemma map_of_Inflate_neighbours:
  "map_of (fold (Inflate_neighbour k) offs nw) c =
     (case map_of nw c of Some u \<Rightarrow> Some u
      | None \<Rightarrow> if c \<in> around k offs then Some \<lparr>alive = False, cnt = 0\<rparr> else None)"
proof (induction offs arbitrary: nw)
  case Nil
  show ?case by (simp add: around_Nil split: option.split)
next
  case (Cons ij offs)
  obtain i j where ij: "ij = (i, j)" by (cases ij)
  show ?case
    by (simp add: ij Cons.IH around_Cons found_def Let_def update_conv' split: option.split)
qed

lemma wf_Inflate_neighbours: "wf_world nw \<Longrightarrow> wf_world (fold (Inflate_neighbour k) offs nw)"
proof (induction offs arbitrary: nw)
  case Nil
  then show ?case by simp
next
  case (Cons ij offs)
  obtain i j where ij: "ij = (i, j)" by (cases ij)
  show ?case
    by (simp add: ij Let_def Cons.IH Cons.prems wf_update)
qed

lemma map_of_Inflate_loop:
  "distinct (map fst es) \<Longrightarrow>
   map_of (fold Inflate_entry es nw) c =
     (case map_of es c of Some v \<Rightarrow> Some v
      | None \<Rightarrow> (case map_of nw c of Some u \<Rightarrow> Some u
          | None \<Rightarrow> if \<exists>k \<in> fst ` set es. c \<in> around k offsets
                    then Some \<lparr>alive = False, cnt = 0\<rparr> else None))"
proof (induction es arbitrary: nw c)
  case Nil
  show ?case by (simp split: option.split)
next
  case (Cons e es)
  obtain k v where e: "e = (k, v)" by (cases e)
  from Cons.prems have k: "map_of es k = None" and d: "distinct (map fst es)"
    by (auto simp: e map_of_eq_None_iff)
  show ?case
    using k
    by (cases "c = k")
      (simp_all add: e Cons.IH [OF d] map_of_Inflate_neighbours update_conv' split: option.split)
qed

lemma wf_Inflate_loop: "wf_world nw \<Longrightarrow> wf_world (fold Inflate_entry es nw)"
proof (induction es arbitrary: nw)
  case Nil
  then show ?case by simp
next
  case (Cons e es)
  obtain k v where e: "e = (k, v)" by (cases e)
  show ?case
    by (simp add: e Cons.IH Cons.prems wf_update wf_Inflate_neighbours)
qed

lemma map_of_Inflate:
  "wf_world w \<Longrightarrow>
   map_of (Inflate w) c =
     (case map_of w c of Some v \<Rightarrow> Some v
      | None \<Rightarrow> if \<exists>k \<in> fst ` set w. c \<in> around k offsets
                then Some \<lparr>alive = False, cnt = 0\<rparr> else None)"
  by (simp add: Inflate_def wf_world_def map_of_Inflate_loop split: option.split)

lemma wf_Inflate: "wf_world (Inflate w)"
  by (simp add: Inflate_def wf_Inflate_loop wf_Nil)

lemma map_of_Count_loop:
  "distinct (map fst es) \<Longrightarrow>
   map_of (fold (Count_entry W) es nw) c =
     (case map_of es c of
        Some v \<Rightarrow> Some \<lparr>alive = alive v, cnt = live_neighbours W c\<rparr>
      | None \<Rightarrow> map_of nw c)"
proof (induction es arbitrary: nw c)
  case Nil
  show ?case by simp
next
  case (Cons e es)
  obtain k v where e: "e = (k, v)" by (cases e)
  from Cons.prems have k: "map_of es k = None" and d: "distinct (map fst es)"
    by (auto simp: e map_of_eq_None_iff)
  show ?case
    using k by (cases "c = k") (simp_all add: e Cons.IH [OF d] update_conv' split: option.split)
qed

lemma wf_Count_loop: "wf_world nw \<Longrightarrow> wf_world (fold (Count_entry W) es nw)"
proof (induction es arbitrary: nw)
  case Nil
  then show ?case by simp
next
  case (Cons e es)
  obtain k v where e: "e = (k, v)" by (cases e)
  show ?case
    by (simp add: e Cons.IH Cons.prems wf_update)
qed

lemma map_of_CountLiveNeighbours:
  "wf_world w \<Longrightarrow>
   map_of (CountLiveNeighbours w) c =
     map_option (\<lambda>v. \<lparr>alive = alive v, cnt = live_neighbours w c\<rparr>) (map_of w c)"
  by (simp add: CountLiveNeighbours_def wf_world_def map_of_Count_loop split: option.split)

lemma wf_CountLiveNeighbours: "wf_world (CountLiveNeighbours w)"
  by (simp add: CountLiveNeighbours_def wf_Count_loop wf_Nil)

lemma map_of_Rules_loop:
  "distinct (map fst es) \<Longrightarrow>
   map_of (fold Rules_entry es nw) c =
     (case map_of es c of
        Some v \<Rightarrow> if passes v then Some \<lparr>alive = True, cnt = 0\<rparr> else map_of nw c
      | None \<Rightarrow> map_of nw c)"
proof (induction es arbitrary: nw c)
  case Nil
  show ?case by simp
next
  case (Cons e es)
  obtain k v where e: "e = (k, v)" by (cases e)
  from Cons.prems have k: "map_of es k = None" and d: "distinct (map fst es)"
    by (auto simp: e map_of_eq_None_iff)
  show ?case
    using k by (cases "c = k") (simp_all add: e Cons.IH [OF d] update_conv' passes_def split: option.split)
qed

lemma wf_Rules_loop: "wf_world nw \<Longrightarrow> wf_world (fold Rules_entry es nw)"
proof (induction es arbitrary: nw)
  case Nil
  then show ?case by simp
next
  case (Cons e es)
  obtain k v where e: "e = (k, v)" by (cases e)
  show ?case
    by (simp add: e Cons.IH Cons.prems wf_update)
qed

lemma map_of_ApplyRules:
  "wf_world w \<Longrightarrow>
   map_of (ApplyRules w) c =
     (case map_of w c of
        Some v \<Rightarrow> if passes v then Some \<lparr>alive = True, cnt = 0\<rparr> else None
      | None \<Rightarrow> None)"
  by (simp add: ApplyRules_def wf_world_def map_of_Rules_loop split: option.split)

lemma wf_ApplyRules: "wf_world (ApplyRules w)"
  by (simp add: ApplyRules_def wf_Rules_loop wf_Nil)

lemma map_of_Deflate_loop:
  "distinct (map fst es) \<Longrightarrow>
   map_of (fold Deflate_entry es nw) c =
     (case map_of es c of
        Some v \<Rightarrow> if alive v then Some v else map_of nw c
      | None \<Rightarrow> map_of nw c)"
proof (induction es arbitrary: nw c)
  case Nil
  show ?case by simp
next
  case (Cons e es)
  obtain k v where e: "e = (k, v)" by (cases e)
  from Cons.prems have k: "map_of es k = None" and d: "distinct (map fst es)"
    by (auto simp: e map_of_eq_None_iff)
  show ?case
    using k by (cases "c = k") (simp_all add: e Cons.IH [OF d] update_conv' split: option.split)
qed

lemma wf_Deflate_loop: "wf_world nw \<Longrightarrow> wf_world (fold Deflate_entry es nw)"
proof (induction es arbitrary: nw)
  case Nil
  then show ?case by simp
next
  case (Cons e es)
  obtain k v where e: "e = (k, v)" by (cases e)
  show ?case
    by (simp add: e Cons.IH Cons.prems wf_update)
qed

lemma map_of_Deflate:
  "wf_world w \<Longrightarrow>
   map_of (Deflate w) c =
     (case map_of w c of Some v \<Rightarrow> if alive v then Some v else None | None \<Rightarrow> None)"
  by (simp add: Deflate_def wf_world_def map_of_Deflate_loop split: option.split)

lemma wf_Deflate: "wf_world (Deflate w)"
  by (simp add: Deflate_def wf_Deflate_loop wf_Nil)

lemma wf_Tick: "wf_world (Tick w)"
  by (simp add: Tick_def wf_Deflate)

section \<open>The count of the code and the Moore neighbourhood\<close>

lemma count_neighbour_fold:
  "fold (count_neighbour W c) offs n =
     n + of_nat (length (filter
       (\<lambda>(i, j). (i \<noteq> 0 \<or> j \<noteq> 0) \<and> live W \<lparr>cx = cx c + i, cy = cy c + j\<rparr>) offs))"
proof (induction offs arbitrary: n)
  case Nil
  show ?case by simp
next
  case (Cons ij offs)
  obtain i j where ij: "ij = (i, j)" by (cases ij)
  show ?case
    by (simp add: ij Cons.IH Let_def live_lookup)
qed

lemma live_neighbours_length: "live_neighbours W c = of_nat (length (live_offsets W c))"
  by (simp add: live_neighbours_def live_offsets_def count_neighbour_fold)

lemma distinct_offsets: "distinct offsets"
  by (simp add: offsets_def)

lemma set_offsets:
  "(i, j) \<in> set offsets \<longleftrightarrow> (i = - 1 \<or> i = 0 \<or> i = 1) \<and> (j = - 1 \<or> j = 0 \<or> j = 1)"
  unfolding offsets_def by (simp only: set_simps insert_iff empty_iff prod.inject) blast

lemma length_live_offsets: "length (live_offsets W c) \<le> 9"
proof -
  have "length (live_offsets W c) \<le> length offsets"
    unfolding live_offsets_def by (rule length_filter_le)
  then show ?thesis by (simp add: offsets_def)
qed

lemma moore_wrap_image:
  "{d \<in> moore_wrap c. live W d} =
     (\<lambda>(i, j). \<lparr>cx = cx c + i, cy = cy c + j\<rparr>) ` set (live_offsets W c)"
proof (rule set_eqI, rule iffI)
  fix d
  assume "d \<in> {d \<in> moore_wrap c. live W d}"
  then have ne: "d \<noteq> c" and i: "cx d - cx c \<in> {- 1, 0, 1}" and j: "cy d - cy c \<in> {- 1, 0, 1}"
    and l: "live W d"
    by (simp_all add: moore_wrap_def)
  have d: "d = \<lparr>cx = cx c + (cx d - cx c), cy = cy c + (cy d - cy c)\<rparr>"
    by simp
  from ne have nz: "cx d - cx c \<noteq> 0 \<or> cy d - cy c \<noteq> 0"
    by (auto intro: Coord.equality)
  from i j have "(cx d - cx c, cy d - cy c) \<in> set offsets"
    by (simp add: set_offsets)
  moreover have eta: "\<lparr>cx = cx d, cy = cy d\<rparr> = d"
    by simp
  ultimately have "(cx d - cx c, cy d - cy c) \<in> set (live_offsets W c)"
    using nz l by (simp add: live_offsets_def eta)
  with d show "d \<in> (\<lambda>(i, j). \<lparr>cx = cx c + i, cy = cy c + j\<rparr>) ` set (live_offsets W c)"
    by (metis (mono_tags, lifting) image_eqI case_prod_conv)
next
  fix d
  assume "d \<in> (\<lambda>(i, j). \<lparr>cx = cx c + i, cy = cy c + j\<rparr>) ` set (live_offsets W c)"
  then obtain i j where ij: "(i, j) \<in> set (live_offsets W c)"
    and d: "d = \<lparr>cx = cx c + i, cy = cy c + j\<rparr>"
    by auto
  from ij have o: "(i, j) \<in> set offsets" and nz: "i \<noteq> 0 \<or> j \<noteq> 0" and l: "live W d"
    by (simp_all add: live_offsets_def d)
  from o have "i \<in> {- 1, 0, 1}" "j \<in> {- 1, 0, 1}"
    by (simp_all add: set_offsets)
  moreover from nz have "d \<noteq> c"
    by (auto simp: d dest: arg_cong [where f = cx] arg_cong [where f = cy])
  ultimately show "d \<in> {d \<in> moore_wrap c. live W d}"
    using l by (simp add: moore_wrap_def d)
qed

lemma live_wrap_length: "live_wrap W c = length (live_offsets W c)"
proof -
  have inj: "inj (\<lambda>(i, j). \<lparr>cx = cx c + i, cy = cy c + j\<rparr>)"
    by (auto simp: inj_on_def)
  have "distinct (live_offsets W c)"
    by (simp add: live_offsets_def distinct_offsets)
  then have "card (set (live_offsets W c)) = length (live_offsets W c)"
    by (rule distinct_card)
  then show ?thesis
    by (simp add: live_wrap_def moore_wrap_image card_image [OF inj_on_subset [OF inj subset_UNIV]])
qed

lemma live_wrap_le: "live_wrap W c \<le> 9"
  by (simp add: live_wrap_length length_live_offsets)

lemma live_neighbours_wrap: "live_neighbours W c = of_nat (live_wrap W c)"
  by (simp add: live_neighbours_length live_wrap_length)

lemma small_cases: "k \<le> 9 \<Longrightarrow> k \<in> {0, 1, 2, 3, 4, 5, 6, 7, 8, 9::nat}"
  by auto

lemma passes_count:
  assumes "k \<le> 9"
  shows "passes \<lparr>alive = a, cnt = of_nat k\<rparr> = (if a then k = 2 \<or> k = 3 else k = 3)"
proof -
  from assms have "k \<in> {0, 1, 2, 3, 4, 5, 6, 7, 8, 9::nat}"
    by (rule small_cases)
  then show ?thesis
    by (auto simp: passes_def word_sless_alt)
qed

section \<open>One tick, as a map\<close>

lemma set_update_subset: "set (AList.update k v al) \<subseteq> insert (k, v) (set al)"
  by (induction al) auto

lemma Rules_loop_entries:
  "e \<in> set (fold Rules_entry es nw) \<Longrightarrow> e \<in> set nw \<or> snd e = \<lparr>alive = True, cnt = 0\<rparr>"
proof (induction es arbitrary: nw)
  case Nil
  then show ?case by simp
next
  case (Cons a es)
  obtain k v where a: "a = (k, v)" by (cases a)
  from Cons.prems have "e \<in> set (fold Rules_entry es (Rules_entry (k, v) nw))"
    by (simp add: a)
  then have "e \<in> set (Rules_entry (k, v) nw) \<or> snd e = \<lparr>alive = True, cnt = 0\<rparr>"
    by (rule Cons.IH)
  moreover have "set (Rules_entry (k, v) nw) \<subseteq> insert (k, \<lparr>alive = True, cnt = 0\<rparr>) (set nw)"
    using set_update_subset [of k "\<lparr>alive = True, cnt = 0\<rparr>" nw] by auto
  ultimately show ?case by auto
qed

lemma Deflate_loop_entries:
  "e \<in> set (fold Deflate_entry es nw) \<Longrightarrow> e \<in> set nw \<or> e \<in> set es \<and> alive (snd e)"
proof (induction es arbitrary: nw)
  case Nil
  then show ?case by simp
next
  case (Cons a es)
  obtain k v where a: "a = (k, v)" by (cases a)
  from Cons.prems have "e \<in> set (fold Deflate_entry es (Deflate_entry (k, v) nw))"
    by (simp add: a)
  then have "e \<in> set (Deflate_entry (k, v) nw) \<or> e \<in> set es \<and> alive (snd e)"
    by (rule Cons.IH)
  moreover have "alive v \<Longrightarrow> set (Deflate_entry (k, v) nw) \<subseteq> insert (k, v) (set nw)"
    using set_update_subset [of k v nw] by auto
  moreover have "\<not> alive v \<Longrightarrow> Deflate_entry (k, v) nw = nw"
    by simp
  ultimately show ?case by (cases "alive v") (auto simp: a)
qed

lemma ApplyRules_entries: "e \<in> set (ApplyRules w) \<Longrightarrow> snd e = \<lparr>alive = True, cnt = 0\<rparr>"
  using Rules_loop_entries [of e w "[]"] by (simp add: ApplyRules_def)

lemma Deflate_entries: "e \<in> set (Deflate w) \<Longrightarrow> e \<in> set w \<and> alive (snd e)"
  using Deflate_loop_entries [of e w "[]"] by (simp add: Deflate_def)

lemma map_of_Deflate_all_alive:
  assumes "wf_world Y" and "\<And>e. e \<in> set Y \<Longrightarrow> alive (snd e)"
  shows "map_of (Deflate Y) c = map_of Y c"
proof (cases "map_of Y c")
  case None
  then show ?thesis by (simp add: map_of_Deflate [OF assms(1)])
next
  case (Some v)
  then have "(c, v) \<in> set Y" by (rule map_of_SomeD)
  then have "alive v" using assms(2) by fastforce
  with Some show ?thesis by (simp add: map_of_Deflate [OF assms(1)])
qed

lemma live_Inflate: "wf_world w \<Longrightarrow> live (Inflate w) d = live w d"
  by (simp add: live_def map_of_Inflate split: option.split)

lemma live_offsets_cong: "(\<And>d. live A d = live B d) \<Longrightarrow> live_offsets A c = live_offsets B c"
  by (simp add: live_offsets_def)

lemma live_neighbours_cong:
  "(\<And>d. live A d = live B d) \<Longrightarrow> live_neighbours A c = live_neighbours B c"
  by (simp add: live_neighbours_length live_offsets_cong [of A B])

lemma live_wrap_cong: "(\<And>d. live A d = live B d) \<Longrightarrow> live_wrap A c = live_wrap B c"
  by (simp add: live_wrap_length live_offsets_cong [of A B])

lemma next_alive_cong: "(\<And>d. live A d = live B d) \<Longrightarrow> next_alive A c = next_alive B c"
  by (simp add: next_alive_def live_wrap_cong [of A B])

lemma offsets_neg: "(i, j) \<in> set offsets \<Longrightarrow> (- i, - j) \<in> set offsets"
  unfolding set_offsets by (elim conjE disjE) simp_all

lemma around_sym:
  assumes "d \<in> around c offsets"
  shows "c \<in> around d offsets"
proof -
  from assms obtain i j where o: "(i, j) \<in> set offsets"
    and d: "d = \<lparr>cx = cx c + i, cy = cy c + j\<rparr>"
    by (auto simp: around_def)
  have "c = (\<lambda>(i, j). \<lparr>cx = cx d + i, cy = cy d + j\<rparr>) (- i, - j)"
    by (simp add: d)
  then show ?thesis
    unfolding around_def using offsets_neg [OF o] by (rule image_eqI)
qed

lemma map_of_Rules_Count:
  "wf_world I \<Longrightarrow>
   map_of (ApplyRules (CountLiveNeighbours I)) c =
     (case map_of I c of
        Some v \<Rightarrow> if passes \<lparr>alive = alive v, cnt = live_neighbours I c\<rparr>
                  then Some \<lparr>alive = True, cnt = 0\<rparr> else None
      | None \<Rightarrow> None)"
  by (simp add: map_of_ApplyRules wf_CountLiveNeighbours map_of_CountLiveNeighbours
      split: option.split)

lemma far_from_life:
  assumes "wf_world w" and "map_of (Inflate w) c = None"
  shows "\<not> live w c" and "live_wrap w c = 0"
proof -
  from assms have none: "map_of w c = None"
    and far: "\<And>k. k \<in> fst ` set w \<Longrightarrow> c \<notin> around k offsets"
    by (auto simp: map_of_Inflate split: option.splits if_splits)
  from none show "\<not> live w c" by (simp add: live_def)
  have "\<not> live w \<lparr>cx = cx c + i, cy = cy c + j\<rparr>" if o: "(i, j) \<in> set offsets" for i j
  proof
    let ?d = "\<lparr>cx = cx c + i, cy = cy c + j\<rparr>"
    assume "live w ?d"
    then obtain v where "map_of w ?d = Some v" by (auto simp: live_def)
    then have "(?d, v) \<in> set w" by (rule map_of_SomeD)
    then have "?d \<in> fst ` set w" by force
    moreover have "?d \<in> around c offsets"
      using o by (force simp: around_def)
    ultimately show False using far around_sym by blast
  qed
  then have "live_offsets w c = []"
    by (auto simp: live_offsets_def filter_empty_conv)
  then show "live_wrap w c = 0" by (simp add: live_wrap_length)
qed

lemma map_of_Tick:
  assumes "wf_world w"
  shows "map_of (Tick w) c = (if next_alive w c then Some \<lparr>alive = True, cnt = 0\<rparr> else None)"
proof -
  let ?I = "Inflate w"
  have R: "map_of (Tick w) c = map_of (ApplyRules (CountLiveNeighbours ?I)) c"
    unfolding Tick_def
    by (rule map_of_Deflate_all_alive) (simp_all add: wf_ApplyRules ApplyRules_entries)
  have N: "live_neighbours ?I c = of_nat (live_wrap w c)"
    using live_wrap_cong [of ?I w c] by (simp add: live_neighbours_wrap live_Inflate assms)
  show ?thesis
  proof (cases "map_of ?I c")
    case None
    with far_from_life [OF assms None] show ?thesis
      by (simp add: R map_of_Rules_Count wf_Inflate next_alive_def)
  next
    case (Some v)
    then have "alive v = live ?I c" by (simp add: live_def)
    then have "alive v = live w c" by (simp add: live_Inflate assms)
    then show ?thesis
      by (simp add: R map_of_Rules_Count wf_Inflate Some N passes_count live_wrap_le
          next_alive_def)
  qed
qed

section \<open>The single-file variant, as a map\<close>

lemma live_update_same: "alive v = live W k \<Longrightarrow> live (AList.update k v W) d = live W d"
  by (simp add: live_def update_conv')

lemma map_of_Recount_loop:
  "distinct (map fst es) \<Longrightarrow> (\<And>k v. (k, v) \<in> set es \<Longrightarrow> alive v = live W k) \<Longrightarrow>
   map_of (fold Recount_entry es W) c =
     (case map_of es c of
        Some v \<Rightarrow> Some \<lparr>alive = alive v, cnt = live_neighbours W c\<rparr>
      | None \<Rightarrow> map_of W c)"
proof (induction es arbitrary: W c)
  case Nil
  show ?case by simp
next
  case (Cons e es)
  obtain k v where e: "e = (k, v)" by (cases e)
  let ?W = "AList.update k \<lparr>alive = alive v, cnt = live_neighbours W k\<rparr> W"
  from Cons.prems(1) have k: "map_of es k = None" and d: "distinct (map fst es)"
    by (auto simp: e map_of_eq_None_iff)
  have "alive v = live W k"
    by (rule Cons.prems(2)) (simp add: e)
  then have L: "live ?W d = live W d" for d
    by (simp add: live_update_same)
  have N: "live_neighbours ?W c = live_neighbours W c" for c
    by (rule live_neighbours_cong) (rule L)
  have "map_of (fold Recount_entry es ?W) c =
     (case map_of es c of
        Some v \<Rightarrow> Some \<lparr>alive = alive v, cnt = live_neighbours ?W c\<rparr>
      | None \<Rightarrow> map_of ?W c)"
    using d by (rule Cons.IH) (simp add: L Cons.prems(2) e)
  then show ?case
    using k by (cases "c = k") (simp_all add: e N update_conv' split: option.split)
qed

lemma wf_Recount_loop: "wf_world W \<Longrightarrow> wf_world (fold Recount_entry es W)"
proof (induction es arbitrary: W)
  case Nil
  then show ?case by simp
next
  case (Cons e es)
  obtain k v where e: "e = (k, v)" by (cases e)
  show ?case
    by (simp add: e Cons.IH Cons.prems wf_update)
qed

lemma wf_count_in_place: "wf_world w \<Longrightarrow> wf_world (count_in_place w)"
  by (simp add: count_in_place_def wf_Recount_loop)

lemma map_of_count_in_place:
  assumes "wf_world w"
  shows "map_of (count_in_place w) c = map_of (CountLiveNeighbours w) c"
proof -
  from assms have d: "distinct (map fst w)" by (simp add: wf_world_def)
  have "alive v = live w k" if "(k, v) \<in> set w" for k v
    using that d by (simp add: live_def)
  with d have "map_of (fold Recount_entry w w) c =
     (case map_of w c of
        Some v \<Rightarrow> Some \<lparr>alive = alive v, cnt = live_neighbours w c\<rparr>
      | None \<Rightarrow> map_of w c)"
    by (rule map_of_Recount_loop)
  then show ?thesis
    by (simp add: count_in_place_def map_of_CountLiveNeighbours assms split: option.split)
qed

lemma map_of_Rules_loop_cong:
  assumes "wf_world A" and "wf_world B" and "\<And>c. map_of A c = map_of B c"
  shows "map_of (fold Rules_entry A []) c = map_of (fold Rules_entry B []) c"
  using assms by (simp add: wf_world_def map_of_Rules_loop)

lemma map_of_Tick_in_place:
  assumes "wf_world w"
  shows "map_of (Tick_in_place w) c = map_of (ApplyRules (CountLiveNeighbours w)) c"
  unfolding Tick_in_place_def ApplyRules_def
  by (rule map_of_Rules_loop_cong)
    (simp_all add: assms wf_count_in_place wf_CountLiveNeighbours map_of_count_in_place)

lemma wf_Tick_in_place: "wf_world (Tick_in_place w)"
  by (simp add: Tick_in_place_def wf_Rules_loop wf_Nil)

lemma Tick_in_place_entries:
  "e \<in> set (Tick_in_place w) \<Longrightarrow> snd e = \<lparr>alive = True, cnt = 0\<rparr>"
  using Rules_loop_entries [of e "count_in_place w" "[]"] by (simp add: Tick_in_place_def)

lemma map_of_Tick_unfold:
  "map_of (Tick w) c = map_of (ApplyRules (CountLiveNeighbours (Inflate w))) c"
  unfolding Tick_def
  by (rule map_of_Deflate_all_alive) (simp_all add: wf_ApplyRules ApplyRules_entries)

lemma map_of_generation: "map_of (generation w) c = map_of (Tick w) c"
proof -
  have "map_of (generation w) c = map_of (Tick_in_place (Inflate w)) c"
    unfolding generation_def
    by (rule map_of_Deflate_all_alive) (simp_all add: wf_Tick_in_place Tick_in_place_entries)
  then show ?thesis
    by (simp add: map_of_Tick_in_place wf_Inflate map_of_Tick_unfold)
qed

lemma wf_generation: "wf_world (generation w)"
  by (simp add: generation_def wf_Deflate)

lemma live_cong_map_of: "(\<And>c. map_of A c = map_of B c) \<Longrightarrow> live A d = live B d"
  by (simp add: live_def)

lemma map_of_Tick_cong:
  assumes "wf_world A" and "wf_world B" and "\<And>c. map_of A c = map_of B c"
  shows "map_of (Tick A) c = map_of (Tick B) c"
proof -
  have "next_alive A c = next_alive B c"
    by (rule next_alive_cong) (rule live_cong_map_of, rule assms(3))
  then show ?thesis
    by (simp add: map_of_Tick assms(1,2))
qed

section \<open>Translation\<close>

lemma map_of_translate:
  "map_of (translate dx dy w) c = map_of w \<lparr>cx = cx c - dx, cy = cy c - dy\<rparr>"
proof (induction w)
  case Nil
  show ?case by (simp add: translate_def)
next
  case (Cons e w)
  obtain k v where e: "e = (k, v)" by (cases e)
  have "(c = \<lparr>cx = cx k + dx, cy = cy k + dy\<rparr>) = (\<lparr>cx = cx c - dx, cy = cy c - dy\<rparr> = k)"
    by (cases c; cases k) auto
  with Cons.IH show ?case
    by (simp add: translate_def e)
qed

lemma wf_translate: "wf_world w \<Longrightarrow> wf_world (translate dx dy w)"
proof -
  have inj: "inj (\<lambda>c::Coord. \<lparr>cx = cx c + dx, cy = cy c + dy\<rparr>)"
    by (rule injI, rule Coord.equality) simp_all
  have "map fst (translate dx dy w) = map (\<lambda>c. \<lparr>cx = cx c + dx, cy = cy c + dy\<rparr>) (map fst w)"
    by (simp add: translate_def case_prod_unfold)
  then show "wf_world w \<Longrightarrow> wf_world (translate dx dy w)"
    by (simp add: wf_world_def distinct_map inj_on_subset [OF inj subset_UNIV] del: map_map)
qed

lemma live_translate: "live (translate dx dy w) c = live w \<lparr>cx = cx c - dx, cy = cy c - dy\<rparr>"
  by (simp add: live_def map_of_translate)

lemma live_offsets_translate:
  "live_offsets (translate dx dy w) c = live_offsets w \<lparr>cx = cx c - dx, cy = cy c - dy\<rparr>"
  by (simp add: live_offsets_def live_translate add_diff_eq diff_add_eq)

lemma next_alive_translate:
  "next_alive (translate dx dy w) c = next_alive w \<lparr>cx = cx c - dx, cy = cy c - dy\<rparr>"
  by (simp add: next_alive_def live_wrap_length live_offsets_translate live_translate)

lemma map_of_Tick_translate:
  assumes "wf_world w"
  shows "map_of (Tick (translate dx dy w)) c = map_of (translate dx dy (Tick w)) c"
  by (simp add: map_of_Tick wf_translate assms map_of_translate next_alive_translate)

lemma wf_Tick_funpow: "wf_world w \<Longrightarrow> wf_world ((Tick ^^ k) w)"
  by (cases k) (simp_all add: wf_Tick)

lemma map_of_Tick_funpow_translate:
  assumes "wf_world w"
  shows "map_of ((Tick ^^ k) (translate dx dy w)) c = map_of (translate dx dy ((Tick ^^ k) w)) c"
proof (induction k arbitrary: c)
  case 0
  show ?case by simp
next
  case (Suc k)
  have "map_of (Tick ((Tick ^^ k) (translate dx dy w))) c =
        map_of (Tick (translate dx dy ((Tick ^^ k) w))) c"
    by (rule map_of_Tick_cong)
      (simp_all add: wf_Tick_funpow wf_translate assms Suc.IH)
  also have "\<dots> = map_of (translate dx dy (Tick ((Tick ^^ k) w))) c"
    by (rule map_of_Tick_translate) (simp add: wf_Tick_funpow assms)
  finally show ?case by simp
qed

lemma wf_generation_funpow: "wf_world w \<Longrightarrow> wf_world ((generation ^^ k) w)"
  by (cases k) (simp_all add: wf_generation)

lemma map_of_generation_funpow:
  assumes "wf_world w"
  shows "map_of ((generation ^^ k) w) c = map_of ((Tick ^^ k) w) c"
proof (induction k arbitrary: c)
  case 0
  show ?case by simp
next
  case (Suc k)
  have "map_of (Tick ((generation ^^ k) w)) c = map_of (Tick ((Tick ^^ k) w)) c"
    by (rule map_of_Tick_cong) (simp_all add: wf_generation_funpow wf_Tick_funpow assms Suc.IH)
  then show ?case by (simp add: map_of_generation)
qed

section \<open>The integer grid and the 64-bit coordinates\<close>

lemma sint_shift:
  assumes "- (2 ^ 63) \<le> sint a + k" and "sint a + k < 2 ^ 63"
  shows "sint (a + word_of_int k :: gint) = sint a + k"
proof -
  have "a + word_of_int k = word_of_int (sint a + k)"
    by simp
  then have "sint (a + word_of_int k) = signed_take_bit 63 (sint a + k)"
    by (simp only: sint_sbintrunc') simp
  also have "\<dots> = sint a + k"
    using assms by (simp add: signed_take_bit_int_eq_self)
  finally show ?thesis .
qed

lemma sint_inject: "sint a = sint b \<Longrightarrow> a = (b :: gint)"
  by (rule signed_word_eqI)

lemma near_iff:
  fixes a b :: gint
  assumes "- (2 ^ 63) < sint a" and "sint a < 2 ^ 63 - 1"
  shows "(\<bar>sint a - sint b\<bar> \<le> 1) = (a - b \<in> {- 1, 0, 1})"
proof -
  have p: "sint (a + 1) = sint a + 1"
    using sint_shift [of a 1] assms by simp
  have m: "sint (a - 1) = sint a - 1"
    using sint_shift [of a "- 1"] assms by simp
  have 1: "(a - b = 1) = (sint b = sint a - 1)"
  proof
    assume "a - b = 1"
    then have "b = a - 1" by (simp add: algebra_simps)
    then show "sint b = sint a - 1" by (simp add: m)
  next
    assume "sint b = sint a - 1"
    then have "sint b = sint (a - 1)" by (simp add: m)
    then have "b = a - 1" by (rule sint_inject)
    then show "a - b = 1" by simp
  qed
  have 2: "(a - b = - 1) = (sint b = sint a + 1)"
  proof
    assume "a - b = - 1"
    then have "b = a + 1" by (simp add: algebra_simps)
    then show "sint b = sint a + 1" by (simp add: p)
  next
    assume "sint b = sint a + 1"
    then have "sint b = sint (a + 1)" by (simp add: p)
    then have "b = a + 1" by (rule sint_inject)
    then show "a - b = - 1" by simp
  qed
  have 3: "(a - b = 0) = (sint b = sint a)"
    using sint_inject [of b a] by auto
  show ?thesis
    unfolding insert_iff empty_iff 1 2 3 by arith
qed

lemma moore_inside:
  assumes "inside w"
  shows "{d \<in> moore c. live w d} = {d \<in> moore_wrap c. live w d}"
proof -
  have "d \<in> moore c \<longleftrightarrow> d \<in> moore_wrap c" if "live w d" for d
  proof -
    from assms that have "- (2 ^ 63) < sint (cx d)" "sint (cx d) < 2 ^ 63 - 1"
      "- (2 ^ 63) < sint (cy d)" "sint (cy d) < 2 ^ 63 - 1"
      by (simp_all add: inside_def)
    then show ?thesis
      by (simp add: moore_def moore_wrap_def near_iff)
  qed
  then show ?thesis by blast
qed

lemma live_moore_inside: "inside w \<Longrightarrow> live_moore w c = live_wrap w c"
  by (simp add: live_moore_def live_wrap_def moore_inside)

lemma live_cells: "live (cells ps) d = ((cx d, cy d) \<in> set ps)"
proof (induction ps)
  case Nil
  show ?case by (simp add: cells_def live_def)
next
  case (Cons p ps)
  obtain a b where p: "p = (a, b)" by (cases p)
  have "(d = \<lparr>cx = a, cy = b\<rparr>) = (cx d = a \<and> cy d = b)"
    by (cases d) simp
  with Cons.IH show ?case
    by (auto simp: cells_def live_def p)
qed

lemma live_moore_cells:
  assumes "distinct ps"
  shows "live_moore (cells ps) c =
           length (filter (\<lambda>(a, b). \<lparr>cx = a, cy = b\<rparr> \<in> moore c) ps)"
proof -
  let ?f = "\<lambda>(a, b). \<lparr>cx = a, cy = b\<rparr> :: Coord"
  let ?qs = "filter (\<lambda>p. ?f p \<in> moore c) ps"
  have inj: "inj ?f"
    by (auto simp: inj_on_def)
  have "{d \<in> moore c. live (cells ps) d} = ?f ` set ?qs"
  proof (rule set_eqI, rule iffI)
    fix d
    assume "d \<in> {d \<in> moore c. live (cells ps) d}"
    then have "d \<in> moore c" and "(cx d, cy d) \<in> set ps"
      by (simp_all add: live_cells)
    moreover have "?f (cx d, cy d) = d" by simp
    ultimately show "d \<in> ?f ` set ?qs"
      by (metis (mono_tags, lifting) image_eqI mem_Collect_eq set_filter)
  next
    fix d
    assume "d \<in> ?f ` set ?qs"
    then obtain a b where "(a, b) \<in> set ps" and "?f (a, b) \<in> moore c" and "d = ?f (a, b)"
      by auto
    then show "d \<in> {d \<in> moore c. live (cells ps) d}"
      by (simp add: live_cells)
  qed
  moreover have "card (?f ` set ?qs) = card (set ?qs)"
    by (rule card_image) (rule inj_on_subset [OF inj subset_UNIV])
  moreover have "card (set ?qs) = length ?qs"
    by (rule distinct_card) (simp add: assms)
  ultimately show ?thesis
    by (simp add: live_moore_def case_prod_unfold)
qed

section \<open>Points of the integer grid\<close>

lemma points_cong: "(\<And>c. map_of A c = map_of B c) \<Longrightarrow> points A = points B"
  by (simp add: points_def live_def)

lemma points_cells: "points (cells ps) = (\<lambda>(a, b). (sint a, sint b)) ` set ps"
proof -
  have "{c. live (cells ps) c} = (\<lambda>(a, b). \<lparr>cx = a, cy = b\<rparr>) ` set ps"
  proof (rule set_eqI, rule iffI)
    fix c
    assume "c \<in> {c. live (cells ps) c}"
    then have "(cx c, cy c) \<in> set ps" by (simp add: live_cells)
    moreover have "c = (\<lambda>(a, b). \<lparr>cx = a, cy = b\<rparr>) (cx c, cy c)" by simp
    ultimately show "c \<in> (\<lambda>(a, b). \<lparr>cx = a, cy = b\<rparr>) ` set ps" by (rule rev_image_eqI)
  next
    fix c
    assume "c \<in> (\<lambda>(a, b). \<lparr>cx = a, cy = b\<rparr>) ` set ps"
    then show "c \<in> {c. live (cells ps) c}" by (auto simp: live_cells)
  qed
  then show ?thesis
    by (simp add: points_def image_image case_prod_unfold)
qed

lemma points_translate:
  assumes "fits dx dy w"
  shows "points (translate (word_of_int dx) (word_of_int dy) w) = shift dx dy (points w)"
proof (rule set_eqI, rule iffI)
  fix p
  assume "p \<in> points (translate (word_of_int dx) (word_of_int dy) w)"
  then obtain c where "live (translate (word_of_int dx) (word_of_int dy) w) c"
    and p: "p = (sint (cx c), sint (cy c))"
    unfolding points_def by blast
  then have c: "live w \<lparr>cx = cx c - word_of_int dx, cy = cy c - word_of_int dy\<rparr>"
    by (simp add: live_translate)
  let ?d = "\<lparr>cx = cx c - word_of_int dx, cy = cy c - word_of_int dy\<rparr>"
  from assms c have "sint (cx ?d + word_of_int dx) = sint (cx ?d) + dx"
    and "sint (cy ?d + word_of_int dy) = sint (cy ?d) + dy"
    by (simp_all only: fits_def sint_shift)
  then have "p = (\<lambda>(a, b). (a + dx, b + dy)) (sint (cx ?d), sint (cy ?d))"
    by (simp add: p)
  moreover from c have "(sint (cx ?d), sint (cy ?d)) \<in> points w"
    unfolding points_def by (intro image_eqI [where x = ?d]) simp_all
  ultimately show "p \<in> shift dx dy (points w)"
    unfolding shift_def by (rule image_eqI)
next
  fix p
  assume "p \<in> shift dx dy (points w)"
  then obtain q where "q \<in> points w" and "p = (\<lambda>(a, b). (a + dx, b + dy)) q"
    unfolding shift_def by blast
  then obtain d where d: "live w d" and p: "p = (sint (cx d) + dx, sint (cy d) + dy)"
    unfolding points_def by auto
  let ?c = "\<lparr>cx = cx d + word_of_int dx, cy = cy d + word_of_int dy\<rparr>"
  from assms d have "sint (cx d + word_of_int dx) = sint (cx d) + dx"
    and "sint (cy d + word_of_int dy) = sint (cy d) + dy"
    by (simp_all only: fits_def sint_shift)
  then have "p = (sint (cx ?c), sint (cy ?c))"
    by (simp add: p)
  moreover from d have "live (translate (word_of_int dx) (word_of_int dy) w) ?c"
    by (simp add: live_translate Coord_eta)
  ultimately show "p \<in> points (translate (word_of_int dx) (word_of_int dy) w)"
    unfolding points_def by (intro image_eqI [where x = ?c]) simp_all
qed

section \<open>The methods on the store\<close>

lemma content_put: "content (put m c v h) a = (if a = m then AList.update c v (content h m) else content h a)"
  by (simp add: put_def)

lemma next_addr_put: "next_addr (put m c v h) = next_addr h"
  by (simp add: put_def)

text \<open>A loop whose body stores into the map at \<open>nw\<close> what \<open>g\<close> makes of that map.\<close>

lemma fold_at:
  assumes "\<And>x h. f x h = h\<lparr>content := (content h)(nw := g x (content h nw))\<rparr>"
  shows "fold f xs h = h\<lparr>content := (content h)(nw := fold g xs (content h nw))\<rparr>"
proof (induction xs arbitrary: h)
  case Nil
  show ?case by simp
next
  case (Cons x xs)
  have "fold f (x # xs) h = fold f xs (f x h)"
    by simp
  also have "\<dots> = (f x h)\<lparr>content := (content (f x h))(nw := fold g xs (content (f x h) nw))\<rparr>"
    by (rule Cons.IH)
  also have "\<dots> = h\<lparr>content := (content h)(nw := fold g (x # xs) (content h nw))\<rparr>"
    by (simp add: assms)
  finally show ?case .
qed

lemma Inflate_neighbour_at_step:
  "Inflate_neighbour_at nw k ij h =
     h\<lparr>content := (content h)(nw := Inflate_neighbour k ij (content h nw))\<rparr>"
  by (cases ij) (simp add: Let_def put_def)

lemma fold_Inflate_neighbour_at:
  "fold (Inflate_neighbour_at nw k) xs h =
     h\<lparr>content := (content h)(nw := fold (Inflate_neighbour k) xs (content h nw))\<rparr>"
  by (rule fold_at) (rule Inflate_neighbour_at_step)

lemma Inflate_entry_at_step:
  "Inflate_entry_at nw e h = h\<lparr>content := (content h)(nw := Inflate_entry e (content h nw))\<rparr>"
  by (cases e) (simp add: fold_Inflate_neighbour_at put_def)

lemma fold_Inflate_entry_at:
  "fold (Inflate_entry_at nw) xs h =
     h\<lparr>content := (content h)(nw := fold Inflate_entry xs (content h nw))\<rparr>"
  by (rule fold_at) (rule Inflate_entry_at_step)

lemma Deflate_entry_at_step:
  "Deflate_entry_at nw e h = h\<lparr>content := (content h)(nw := Deflate_entry e (content h nw))\<rparr>"
  by (cases e) (simp add: put_def)

lemma Rules_entry_at_step:
  "Rules_entry_at nw e h = h\<lparr>content := (content h)(nw := Rules_entry e (content h nw))\<rparr>"
  by (cases e) (simp add: put_def)

lemma Recount_entry_at_step:
  "Count_entry_at world world e h =
     h\<lparr>content := (content h)(world := Recount_entry e (content h world))\<rparr>"
  by (cases e) (simp add: put_def)

lemma fold_Deflate_entry_at:
  "fold (Deflate_entry_at nw) xs h =
     h\<lparr>content := (content h)(nw := fold Deflate_entry xs (content h nw))\<rparr>"
  by (rule fold_at) (rule Deflate_entry_at_step)

lemma fold_Rules_entry_at:
  "fold (Rules_entry_at nw) xs h =
     h\<lparr>content := (content h)(nw := fold Rules_entry xs (content h nw))\<rparr>"
  by (rule fold_at) (rule Rules_entry_at_step)

lemma fold_Recount_entry_at:
  "fold (Count_entry_at world world) xs h =
     h\<lparr>content := (content h)(world := fold Recount_entry xs (content h world))\<rparr>"
  by (rule fold_at) (rule Recount_entry_at_step)

lemma fold_Count_at:
  assumes "world \<noteq> nw"
  shows "fold (Count_entry_at world nw) xs h =
           h\<lparr>content := (content h)(nw := fold (Count_entry (content h world)) xs (content h nw))\<rparr>"
proof (induction xs arbitrary: h)
  case Nil
  show ?case by simp
next
  case (Cons x xs)
  obtain k v where x: "x = (k, v)" by (cases x)
  let ?h = "Count_entry_at world nw x h"
  have "fold (Count_entry_at world nw) (x # xs) h = fold (Count_entry_at world nw) xs ?h"
    by simp
  also have "\<dots> =
      ?h\<lparr>content := (content ?h)(nw := fold (Count_entry (content ?h world)) xs (content ?h nw))\<rparr>"
    by (rule Cons.IH)
  also have "\<dots> =
      h\<lparr>content := (content h)(nw := fold (Count_entry (content h world)) (x # xs) (content h nw))\<rparr>"
    using assms by (simp add: x put_def)
  finally show ?case .
qed

lemma Inflate_at_eq:
  assumes "world < next_addr h"
  shows "Inflate_at world h =
    (next_addr h,
     h\<lparr>content := (content h)(next_addr h := Inflate (content h world)),
       next_addr := Suc (next_addr h)\<rparr>)"
  using assms
  by (simp add: Inflate_at_def make_def fold_Inflate_entry_at Inflate_def)

lemma Deflate_at_eq:
  assumes "world < next_addr h"
  shows "Deflate_at world h =
    (next_addr h,
     h\<lparr>content := (content h)(next_addr h := Deflate (content h world)),
       next_addr := Suc (next_addr h)\<rparr>)"
  using assms
  by (simp add: Deflate_at_def make_def fold_Deflate_entry_at Deflate_def)

lemma ApplyRules_at_eq:
  assumes "world < next_addr h"
  shows "ApplyRules_at world h =
    (next_addr h,
     h\<lparr>content := (content h)(next_addr h := ApplyRules (content h world)),
       next_addr := Suc (next_addr h)\<rparr>)"
  using assms
  by (simp add: ApplyRules_at_def make_def fold_Rules_entry_at ApplyRules_def)

lemma CountLiveNeighbours_at_eq:
  assumes "world < next_addr h"
  shows "CountLiveNeighbours_at world h =
    (next_addr h,
     h\<lparr>content := (content h)(next_addr h := CountLiveNeighbours (content h world)),
       next_addr := Suc (next_addr h)\<rparr>)"
  using assms
  by (simp add: CountLiveNeighbours_at_def make_def fold_Count_at CountLiveNeighbours_def)

lemma Tick_in_place_at_eq:
  assumes "world < next_addr h"
  shows "Tick_in_place_at world h =
    (next_addr h,
     h\<lparr>content := (content h)(world := count_in_place (content h world),
                                next_addr h := Tick_in_place (content h world)),
       next_addr := Suc (next_addr h)\<rparr>)"
  using assms
  by (simp add: Tick_in_place_at_def make_def fold_Recount_entry_at
      fold_Rules_entry_at Tick_in_place_def count_in_place_def Let_def)

lemma Tick_at_eq:
  assumes "world < next_addr h"
  shows "Tick_at world h =
    (Suc (Suc (Suc (next_addr h))),
     h\<lparr>content := (content h)
          (next_addr h := Inflate (content h world),
           Suc (next_addr h) := CountLiveNeighbours (Inflate (content h world)),
           Suc (Suc (next_addr h)) := ApplyRules (CountLiveNeighbours (Inflate (content h world))),
           Suc (Suc (Suc (next_addr h))) := Tick (content h world)),
       next_addr := Suc (Suc (Suc (Suc (next_addr h))))\<rparr>)"
  using assms
  by (simp add: Tick_at_def Inflate_at_eq CountLiveNeighbours_at_eq ApplyRules_at_eq
      Deflate_at_eq Tick_def)

lemma generation_at_eq:
  assumes "world < next_addr h"
  shows "generation_at world h =
    (Suc (Suc (next_addr h)),
     h\<lparr>content := (content h)
          (next_addr h := count_in_place (Inflate (content h world)),
           Suc (next_addr h) := Tick_in_place (Inflate (content h world)),
           Suc (Suc (next_addr h)) := generation (content h world)),
       next_addr := Suc (Suc (Suc (next_addr h)))\<rparr>)"
  using assms
  by (simp add: generation_at_def Inflate_at_eq Tick_in_place_at_eq Deflate_at_eq generation_def)

section \<open>Evaluation on concrete worlds\<close>

lemma sless_small:
  "((1::gint) <s 0) = False" "((1::gint) <s 1) = False" "((1::gint) <s 2) = True"
  "((1::gint) <s 3) = True" "((1::gint) <s 4) = True" "((1::gint) <s 5) = True"
  "((1::gint) <s 6) = True" "((1::gint) <s 7) = True" "((1::gint) <s 8) = True"
  "((0::gint) <s 4) = True" "((2::gint) <s 4) = True" "((3::gint) <s 4) = True"
  "((4::gint) <s 4) = False" "((5::gint) <s 4) = False" "((6::gint) <s 4) = False"
  "((7::gint) <s 4) = False" "((8::gint) <s 4) = False"
  by (simp_all add: word_sless_alt)

lemmas stages =
  Tick_def Inflate_def Deflate_def ApplyRules_def CountLiveNeighbours_def live_neighbours_def
  generation_def Tick_in_place_def count_in_place_def
  offsets_def found_def lookup_def Let_def sless_small

lemma world_of_blinker: "world_of blinker = cells [(0, 0), (1, 0), (2, 0)]"
  by (simp add: world_of_def blinker_def cells_def)

lemma world_of_default: "world_of default_pattern = cells [(1, 0), (0, 1), (1, 1), (1, 2), (2, 2)]"
  by (simp add: world_of_def default_pattern_def cells_def)

lemma Tick_blinker: "Tick (cells [(0, 0), (1, 0), (2, 0)]) = cells [(1, - 1), (1, 0), (1, 1)]"
  by (simp add: cells_def stages)

lemma Tick_blinker2: "Tick (cells [(1, - 1), (1, 0), (1, 1)]) = cells [(0, 0), (1, 0), (2, 0)]"
  by (simp add: cells_def stages)

lemma generation_blinker:
  "generation (cells [(0, 0), (1, 0), (2, 0)]) = cells [(1, - 1), (1, 0), (1, 1)]"
  by (simp add: cells_def stages)

lemma seam_translate: "seam = translate 9223372036854775806 0 (cells [(0, 0), (1, 0), (2, 0)])"
  by (simp add: seam_def translate_def cells_def)

lemma live_Tick_seam:
  "live (Tick seam) c =
     live (cells [(1, - 1), (1, 0), (1, 1)]) \<lparr>cx = cx c - 9223372036854775806, cy = cy c\<rparr>"
proof -
  have "wf_world (cells [(0, 0), (1, 0), (2, 0)])"
    by (simp add: cells_def wf_world_def)
  then have "map_of (Tick seam) c =
      map_of (translate 9223372036854775806 0 (Tick (cells [(0, 0), (1, 0), (2, 0)]))) c"
    unfolding seam_translate by (rule map_of_Tick_translate)
  then show ?thesis
    by (simp add: live_def map_of_translate Tick_blinker)
qed

lemma Tick_default_1:
  "Tick (cells [(1, 0), (0, 1), (1, 1), (1, 2), (2, 2)]) =
     cells [(1, 0), (0, 0), (0, 1), (0, 2), (1, 2), (2, 2)]"
  by (simp add: cells_def stages)

lemma Tick_default_2:
  "Tick (cells [(1, 0), (0, 0), (0, 1), (0, 2), (1, 2), (2, 2)]) =
     cells [(1, 0), (0, 0), (2, 1), (- 1, 1), (0, 2), (1, 2), (1, 3)]"
  by (simp add: cells_def stages)

lemma Tick_default_3:
  "Tick (cells [(1, 0), (0, 0), (2, 1), (- 1, 1), (0, 2), (1, 2), (1, 3)]) =
     cells [(1, 0), (0, 0), (2, 1), (- 1, 1), (1, 2), (2, 2), (0, 2), (0, 3), (1, 3)]"
  by (simp add: cells_def stages)

lemma Tick_default_4:
  "Tick (cells [(1, 0), (0, 0), (2, 1), (- 1, 1), (1, 2), (2, 2), (0, 2), (0, 3), (1, 3)]) =
     cells [(1, 0), (0, 0), (2, 1), (- 1, 1), (2, 2), (- 1, 2), (0, 3), (2, 3)]"
  by (simp add: cells_def stages)

lemma Tick4_default:
  "(Tick ^^ 4) (world_of default_pattern) =
     cells [(1, 0), (0, 0), (2, 1), (- 1, 1), (2, 2), (- 1, 2), (0, 3), (2, 3)]"
  by (simp add: eval_nat_numeral world_of_default
      Tick_default_1 Tick_default_2 Tick_default_3 Tick_default_4)

section \<open>The rule of the game\<close>

text \<open>
  Claim C1 says that \<open>Tick\<close> is B3/S23 on the specification's grid, the unbounded integer
  grid. The coordinates of the code are 64-bit integers and \<^verbatim>\<open>coord.x + i\<close> wraps around,
  so the code treats the columns \<open>2^63 - 1\<close> and \<open>-2^63\<close> as adjacent. In the world \<open>seam\<close>
  the live cell \<open>(2^63 - 1, 0)\<close> has one live neighbour on the integer grid and survives,
  and the dead cell \<open>(2^63 - 1, 1)\<close> has two and is born.
\<close>

theorem Tick_seam_counterexample:
  "live seam \<lparr>cx = 9223372036854775807, cy = 0\<rparr>
   \<and> live_moore seam \<lparr>cx = 9223372036854775807, cy = 0\<rparr> = 1
   \<and> live (Tick seam) \<lparr>cx = 9223372036854775807, cy = 0\<rparr>
   \<and> \<not> live seam \<lparr>cx = 9223372036854775807, cy = 1\<rparr>
   \<and> live_moore seam \<lparr>cx = 9223372036854775807, cy = 1\<rparr> = 2
   \<and> live (Tick seam) \<lparr>cx = 9223372036854775807, cy = 1\<rparr>"
proof -
  have "live seam \<lparr>cx = 9223372036854775807, cy = 0\<rparr>"
    and "\<not> live seam \<lparr>cx = 9223372036854775807, cy = 1\<rparr>"
    by (simp_all add: seam_def live_cells)
  moreover have "live_moore seam \<lparr>cx = 9223372036854775807, cy = 0\<rparr> = 1"
    and "live_moore seam \<lparr>cx = 9223372036854775807, cy = 1\<rparr> = 2"
    by (simp_all add: seam_def live_moore_cells moore_def)
  moreover have "live (Tick seam) \<lparr>cx = 9223372036854775807, cy = 0\<rparr>"
    and "live (Tick seam) \<lparr>cx = 9223372036854775807, cy = 1\<rparr>"
    by (simp_all add: live_Tick_seam live_cells)
  ultimately show ?thesis by simp
qed

text \<open>
  Claim C1, amended. For every world (a list of entries with unique keys) all of whose live
  cells lie strictly inside the 64-bit range, and every coordinate \<open>c\<close>: \<open>c\<close> is live after
  \<open>Tick\<close> exactly if it is live in the input and has two or three live Moore neighbours
  there, or is not live in the input (dead or absent) and has exactly three live Moore
  neighbours there, the neighbours being those of the integer grid. For every world with
  unique keys the same holds with the neighbours taken on the 64-bit coordinates with
  wrap-around. In both cases a coordinate that is not live after \<open>Tick\<close> is absent from
  the result, and one generation \<open>Inflate().Tick().Deflate()\<close> of the single-file variant
  behaves in the same way. In a world whose entries are all alive, the live coordinates are
  the keys.
\<close>

theorem Tick_B3S23:
  assumes "wf_world world"
  shows "(inside world \<longrightarrow>
            live (Tick world) c =
              (live world c \<and> (live_moore world c = 2 \<or> live_moore world c = 3)
               \<or> \<not> live world c \<and> live_moore world c = 3)
          \<and> live (generation world) c =
              (live world c \<and> (live_moore world c = 2 \<or> live_moore world c = 3)
               \<or> \<not> live world c \<and> live_moore world c = 3))
    \<and> live (Tick world) c =
         (live world c \<and> (live_wrap world c = 2 \<or> live_wrap world c = 3)
          \<or> \<not> live world c \<and> live_wrap world c = 3)
    \<and> live (generation world) c =
         (live world c \<and> (live_wrap world c = 2 \<or> live_wrap world c = 3)
          \<or> \<not> live world c \<and> live_wrap world c = 3)
    \<and> (\<not> live (Tick world) c \<longrightarrow> map_of (Tick world) c = None)
    \<and> (\<not> live (generation world) c \<longrightarrow> map_of (generation world) c = None)"
proof -
  have T: "map_of (Tick world) c =
      (if next_alive world c then Some \<lparr>alive = True, cnt = 0\<rparr> else None)"
    using assms by (rule map_of_Tick)
  have G: "map_of (generation world) c = map_of (Tick world) c"
    by (rule map_of_generation)
  have 1: "live (Tick world) c = next_alive world c"
    unfolding live_def [of "Tick world"] T by simp
  have 2: "\<not> live (Tick world) c \<longrightarrow> map_of (Tick world) c = None"
    unfolding 1 T by simp
  have 3: "live (generation world) c = live (Tick world) c"
    unfolding live_def G ..
  have 4: "next_alive world c =
           (live world c \<and> (live_wrap world c = 2 \<or> live_wrap world c = 3)
            \<or> \<not> live world c \<and> live_wrap world c = 3)"
    unfolding next_alive_def by (cases "live world c") simp_all
  have 5: "live_moore world c = live_wrap world c" if "inside world"
    using that by (rule live_moore_inside)
  from 1 2 3 4 5 G show ?thesis by metis
qed

theorem Tick_B3S23_witness:
  "wf_world (world_of blinker) \<and> inside (world_of blinker)
   \<and> \<not> live (world_of blinker) \<lparr>cx = 1, cy = - 1\<rparr>
   \<and> live_moore (world_of blinker) \<lparr>cx = 1, cy = - 1\<rparr> = 3
   \<and> live (Tick (world_of blinker)) \<lparr>cx = 1, cy = - 1\<rparr>
   \<and> live (world_of blinker) \<lparr>cx = 0, cy = 0\<rparr>
   \<and> live_moore (world_of blinker) \<lparr>cx = 0, cy = 0\<rparr> = 1
   \<and> map_of (Tick (world_of blinker)) \<lparr>cx = 0, cy = 0\<rparr> = None"
proof -
  have wf: "wf_world (world_of blinker)"
    by (simp add: world_of_blinker cells_def wf_world_def)
  have i: "inside (world_of blinker)"
    by (auto simp: inside_def world_of_blinker live_cells)
  have a: "\<not> live (world_of blinker) \<lparr>cx = 1, cy = - 1\<rparr>"
    and c: "live (world_of blinker) \<lparr>cx = 0, cy = 0\<rparr>"
    by (simp_all add: world_of_blinker live_cells)
  have b: "live_moore (world_of blinker) \<lparr>cx = 1, cy = - 1\<rparr> = 3"
    and d: "live_moore (world_of blinker) \<lparr>cx = 0, cy = 0\<rparr> = 1"
    by (simp_all add: world_of_blinker live_moore_cells moore_def)
  from Tick_B3S23 [OF wf, of "\<lparr>cx = 1, cy = - 1\<rparr>"] i a b
  have e: "live (Tick (world_of blinker)) \<lparr>cx = 1, cy = - 1\<rparr>"
    by simp
  from Tick_B3S23 [OF wf, of "\<lparr>cx = 0, cy = 0\<rparr>"] i c d
  have f: "map_of (Tick (world_of blinker)) \<lparr>cx = 0, cy = 0\<rparr> = None"
    by simp
  from wf i a b c d e f show ?thesis by simp
qed

section \<open>The two formulations of a tick\<close>

text \<open>
  Claim C2. The staged \<open>Tick\<close> (\<open>Inflate\<close>, \<open>CountLiveNeighbours\<close>, \<open>ApplyRules\<close>,
  \<open>Deflate\<close>) and the pipeline \<open>Inflate\<close>, in-place \<open>Tick\<close>, \<open>Deflate\<close> of the
  single-file variant return the same map, on every world and whatever the orders in which
  \<open>range\<close> visits the entries of the input.
\<close>

theorem Tick_generation_equal:
  assumes "wf_world w" and "wf_world w'" and "map_of w = map_of w'"
  shows "map_of (Tick w) = map_of (generation w')"
proof
  fix c
  have "map_of (Tick w) c = map_of (Tick w') c"
    using assms(1,2) by (rule map_of_Tick_cong) (simp add: assms(3))
  then show "map_of (Tick w) c = map_of (generation w') c"
    by (simp add: map_of_generation)
qed

theorem Tick_generation_equal_witness:
  "wf_world (cells [(0, 0), (1, 0), (2, 0)]) \<and> wf_world (cells [(2, 0), (1, 0), (0, 0)])
   \<and> map_of (cells [(0, 0), (1, 0), (2, 0)]) = map_of (cells [(2, 0), (1, 0), (0, 0)])
   \<and> map_of (Tick (cells [(0, 0), (1, 0), (2, 0)])) =
       map_of (generation (cells [(2, 0), (1, 0), (0, 0)]))"
proof -
  have 1: "wf_world (cells [(0, 0), (1, 0), (2, 0)])"
    and 2: "wf_world (cells [(2, 0), (1, 0), (0, 0)])"
    by (simp_all add: cells_def wf_world_def)
  have 3: "map_of (cells [(0, 0), (1, 0), (2, 0)]) = map_of (cells [(2, 0), (1, 0), (0, 0)])"
    by (rule ext) (simp add: cells_def)
  from 1 2 3 Tick_generation_equal [OF 1 2 3] show ?thesis by simp
qed

section \<open>Sparsity\<close>

text \<open>
  Claim C3. Every entry of the world that \<open>Tick\<close> returns has \<open>alive = true\<close> and
  \<open>n = 0\<close>; so has every entry that one generation of the single-file variant returns.
\<close>

theorem Tick_entries_alive:
  "(\<forall>e \<in> set (Tick world). alive (snd e) \<and> cnt (snd e) = 0)
   \<and> (\<forall>e \<in> set (generation world). alive (snd e) \<and> cnt (snd e) = 0)"
proof (intro conjI ballI)
  fix e
  assume "e \<in> set (Tick world)"
  then have "e \<in> set (ApplyRules (CountLiveNeighbours (Inflate world)))"
    unfolding Tick_def by (rule Deflate_entries [THEN conjunct1])
  then have "snd e = \<lparr>alive = True, cnt = 0\<rparr>" by (rule ApplyRules_entries)
  then show "alive (snd e)" and "cnt (snd e) = 0" by simp_all
next
  fix e
  assume "e \<in> set (generation world)"
  then have "e \<in> set (Tick_in_place (Inflate world))"
    unfolding generation_def by (rule Deflate_entries [THEN conjunct1])
  then have "snd e = \<lparr>alive = True, cnt = 0\<rparr>" by (rule Tick_in_place_entries)
  then show "alive (snd e)" and "cnt (snd e) = 0" by simp_all
qed

theorem Tick_entries_alive_witness:
  "Tick (world_of blinker) \<noteq> []
   \<and> list_all (\<lambda>e. alive (snd e) \<and> cnt (snd e) = 0) (Tick (world_of blinker))
   \<and> generation (world_of blinker) \<noteq> []
   \<and> list_all (\<lambda>e. alive (snd e) \<and> cnt (snd e) = 0) (generation (world_of blinker))"
proof -
  have "Tick (world_of blinker) \<noteq> []" and "generation (world_of blinker) \<noteq> []"
    by (simp_all add: world_of_blinker Tick_blinker generation_blinker) (simp_all add: cells_def)
  with Tick_entries_alive [of "world_of blinker"] show ?thesis
    by (simp add: list_all_iff)
qed

section \<open>Translation invariance\<close>

text \<open>
  Claim C4 says that \<open>N\<close> ticks of a translated pattern give the translation of \<open>N\<close> ticks
  of the pattern, on the specification's unbounded grid. The code adds with wrap-around, so
  a pattern that grows across the edge of the 64-bit range continues on the other side.
  The blinker moved by \<open>(0, 2^63 - 1)\<close> still has all its cells in the range; its next
  generation has the cell \<open>(1, -2^63)\<close>, which is not in the translation of the next
  generation of the blinker, whose third cell would be \<open>(1, 2^63)\<close>.
\<close>

theorem Tick_translate_counterexample:
  "fits 0 9223372036854775807 (world_of blinker)
   \<and> points (translate 0 9223372036854775807 (world_of blinker)) =
       shift 0 9223372036854775807 (points (world_of blinker))
   \<and> (1, - 9223372036854775808) \<in>
       points (Tick (translate 0 9223372036854775807 (world_of blinker)))
   \<and> (1, - 9223372036854775808) \<notin>
       shift 0 9223372036854775807 (points (Tick (world_of blinker)))"
proof -
  have wf: "wf_world (cells [(0, 0), (1, 0), (2, 0)])"
    by (simp add: cells_def wf_world_def)
  have 1: "fits 0 9223372036854775807 (world_of blinker)"
    by (auto simp: fits_def world_of_blinker live_cells)
  have 2: "points (translate 0 9223372036854775807 (world_of blinker)) =
       shift 0 9223372036854775807 (points (world_of blinker))"
    using points_translate [OF 1] by simp
  have "points (Tick (translate 0 9223372036854775807 (cells [(0, 0), (1, 0), (2, 0)]))) =
        points (translate 0 9223372036854775807 (Tick (cells [(0, 0), (1, 0), (2, 0)])))"
    by (rule points_cong) (rule map_of_Tick_translate [OF wf])
  also have "translate 0 9223372036854775807 (Tick (cells [(0, 0), (1, 0), (2, 0)])) =
      cells [(1, 9223372036854775806), (1, 9223372036854775807), (1, - 9223372036854775808)]"
    by (simp add: Tick_blinker) (simp add: translate_def cells_def)
  finally have 3: "(1, - 9223372036854775808) \<in>
       points (Tick (translate 0 9223372036854775807 (world_of blinker)))"
    by (simp add: world_of_blinker points_cells)
  have 4: "(1, - 9223372036854775808) \<notin>
       shift 0 9223372036854775807 (points (Tick (world_of blinker)))"
    by (simp add: world_of_blinker Tick_blinker points_cells shift_def)
  from 1 2 3 4 show ?thesis by simp
qed

text \<open>
  Claim C4, amended. For every world with unique keys (in particular the world built from a
  finite set of live coordinates), every offset and every number \<open>k\<close> of ticks: \<open>k\<close> ticks of
  the translated world give the translation of \<open>k\<close> ticks of the world, where the
  translation adds the offset to the 64-bit coordinates with wrap-around. On the integer
  grid, moving a world by \<open>(dx, dy)\<close> is that translation whenever no live cell leaves the
  64-bit range; so \<open>k\<close> ticks of the moved world are \<open>k\<close> ticks of the world, moved by
  \<open>(dx, dy)\<close>, whenever the result of the \<open>k\<close> ticks can be moved by \<open>(dx, dy)\<close> within
  the range. The same holds for the generations of the single-file variant.
\<close>

theorem Tick_translate:
  assumes "wf_world world"
  shows "map_of ((Tick ^^ k) (translate a b world)) = map_of (translate a b ((Tick ^^ k) world))
    \<and> map_of ((generation ^^ k) (translate a b world)) =
       map_of (translate a b ((generation ^^ k) world))
    \<and> (fits dx dy world \<longrightarrow>
         points (translate (word_of_int dx) (word_of_int dy) world) = shift dx dy (points world))
    \<and> (fits dx dy ((Tick ^^ k) world) \<longrightarrow>
         points ((Tick ^^ k) (translate (word_of_int dx) (word_of_int dy) world)) =
           shift dx dy (points ((Tick ^^ k) world)))
    \<and> (fits dx dy ((generation ^^ k) world) \<longrightarrow>
         points ((generation ^^ k) (translate (word_of_int dx) (word_of_int dy) world)) =
           shift dx dy (points ((generation ^^ k) world)))"
proof -
  have T: "map_of ((Tick ^^ k) (translate a b world)) c =
           map_of (translate a b ((Tick ^^ k) world)) c" for a b c
    using assms by (rule map_of_Tick_funpow_translate)
  have G: "map_of ((generation ^^ k) (translate a b world)) c =
        map_of (translate a b ((generation ^^ k) world)) c" for a b c
    by (simp add: map_of_generation_funpow wf_translate assms T map_of_translate)
  have 1: "map_of ((Tick ^^ k) (translate a b world)) = map_of (translate a b ((Tick ^^ k) world))"
    by (rule ext) (rule T)
  have 2: "map_of ((generation ^^ k) (translate a b world)) =
       map_of (translate a b ((generation ^^ k) world))"
    by (rule ext) (rule G)
  have 3: "points (translate (word_of_int dx) (word_of_int dy) world) = shift dx dy (points world)"
    if "fits dx dy world"
    using that by (rule points_translate)
  have 4: "points ((Tick ^^ k) (translate (word_of_int dx) (word_of_int dy) world)) =
           shift dx dy (points ((Tick ^^ k) world))"
    if "fits dx dy ((Tick ^^ k) world)"
  proof -
    have "points ((Tick ^^ k) (translate (word_of_int dx) (word_of_int dy) world)) =
          points (translate (word_of_int dx) (word_of_int dy) ((Tick ^^ k) world))"
      by (rule points_cong) (rule T)
    with that show ?thesis by (simp add: points_translate)
  qed
  have 5: "points ((generation ^^ k) (translate (word_of_int dx) (word_of_int dy) world)) =
           shift dx dy (points ((generation ^^ k) world))"
    if "fits dx dy ((generation ^^ k) world)"
  proof -
    have "points ((generation ^^ k) (translate (word_of_int dx) (word_of_int dy) world)) =
          points (translate (word_of_int dx) (word_of_int dy) ((generation ^^ k) world))"
      by (rule points_cong) (rule G)
    with that show ?thesis by (simp add: points_translate)
  qed
  from 1 2 3 4 5 show ?thesis by blast
qed

theorem Tick_translate_witness:
  "wf_world (world_of blinker)
   \<and> fits 5 (- 3) (world_of blinker)
   \<and> fits 5 (- 3) ((Tick ^^ 2) (world_of blinker))
   \<and> points ((Tick ^^ 2) (translate 5 (- 3) (world_of blinker))) =
       shift 5 (- 3) (points ((Tick ^^ 2) (world_of blinker)))
   \<and> shift 5 (- 3) (points ((Tick ^^ 2) (world_of blinker))) = {(5, - 3), (6, - 3), (7, - 3)}
   \<and> map_of ((Tick ^^ 2) (translate 5 (- 3) (world_of blinker))) =
       map_of (translate 5 (- 3) ((Tick ^^ 2) (world_of blinker)))"
proof -
  have wf: "wf_world (world_of blinker)"
    by (simp add: world_of_blinker cells_def wf_world_def)
  have 2: "(Tick ^^ 2) (world_of blinker) = cells [(0, 0), (1, 0), (2, 0)]"
    by (simp add: eval_nat_numeral world_of_blinker Tick_blinker Tick_blinker2)
  have f1: "fits 5 (- 3) (world_of blinker)"
    by (auto simp: fits_def world_of_blinker live_cells)
  have f2: "fits 5 (- 3) ((Tick ^^ 2) (world_of blinker))"
    unfolding 2 by (auto simp: fits_def live_cells)
  have 3: "shift 5 (- 3) (points ((Tick ^^ 2) (world_of blinker))) = {(5, - 3), (6, - 3), (7, - 3)}"
    unfolding 2 by (simp add: points_cells shift_def)
  from Tick_translate [OF wf, of 2 5 "- 3" 5 "- 3"] f2
  have 4: "points ((Tick ^^ 2) (translate 5 (- 3) (world_of blinker))) =
       shift 5 (- 3) (points ((Tick ^^ 2) (world_of blinker)))"
    and 5: "map_of ((Tick ^^ 2) (translate 5 (- 3) (world_of blinker))) =
       map_of (translate 5 (- 3) ((Tick ^^ 2) (world_of blinker)))"
    by simp_all
  from wf f1 f2 3 4 5 show ?thesis by simp
qed

section \<open>Four ticks of the default pattern\<close>

text \<open>
  Claim C5 says that four ticks move the pattern \<open>{(1,0), (0,1), (1,1), (1,2), (2,2)}\<close> by
  \<open>(+1, +1)\<close>, or by another diagonal offset. The pattern is the r-pentomino, as the comment
  in \<open>main\<close> calls it, not a glider: after four ticks it has eight live cells, and the result
  differs from each of the four diagonal translates of the pattern.
\<close>

theorem default_pattern_not_glider:
  "length (world_of default_pattern) = 5
   \<and> length ((Tick ^^ 4) (world_of default_pattern)) = 8
   \<and> map_of ((Tick ^^ 4) (world_of default_pattern)) \<noteq>
       map_of (translate 1 1 (world_of default_pattern))
   \<and> map_of ((Tick ^^ 4) (world_of default_pattern)) \<noteq>
       map_of (translate (- 1) (- 1) (world_of default_pattern))
   \<and> map_of ((Tick ^^ 4) (world_of default_pattern)) \<noteq>
       map_of (translate 1 (- 1) (world_of default_pattern))
   \<and> map_of ((Tick ^^ 4) (world_of default_pattern)) \<noteq>
       map_of (translate (- 1) 1 (world_of default_pattern))"
proof -
  let ?r = "(Tick ^^ 4) (world_of default_pattern)"
  have a: "map_of ?r \<lparr>cx = 0, cy = 0\<rparr> = Some \<lparr>alive = True, cnt = 0\<rparr>"
    and b: "map_of ?r \<lparr>cx = 1, cy = 0\<rparr> = Some \<lparr>alive = True, cnt = 0\<rparr>"
    by (simp_all add: Tick4_default cells_def)
  have "map_of (translate 1 1 (world_of default_pattern)) \<lparr>cx = 0, cy = 0\<rparr> = None"
    by (simp add: world_of_default cells_def translate_def)
  with a have 1: "map_of ?r \<noteq> map_of (translate 1 1 (world_of default_pattern))"
    by (metis option.distinct(1))
  have "map_of (translate (- 1) (- 1) (world_of default_pattern)) \<lparr>cx = 1, cy = 0\<rparr> = None"
    by (simp add: world_of_default cells_def translate_def)
  with b have 2: "map_of ?r \<noteq> map_of (translate (- 1) (- 1) (world_of default_pattern))"
    by (metis option.distinct(1))
  have "map_of (translate 1 (- 1) (world_of default_pattern)) \<lparr>cx = 0, cy = 0\<rparr> = None"
    by (simp add: world_of_default cells_def translate_def)
  with a have 3: "map_of ?r \<noteq> map_of (translate 1 (- 1) (world_of default_pattern))"
    by (metis option.distinct(1))
  have "map_of (translate (- 1) 1 (world_of default_pattern)) \<lparr>cx = 0, cy = 0\<rparr> = None"
    by (simp add: world_of_default cells_def translate_def)
  with a have 4: "map_of ?r \<noteq> map_of (translate (- 1) 1 (world_of default_pattern))"
    by (metis option.distinct(1))
  have 5: "length (world_of default_pattern) = 5" "length ?r = 8"
    by (simp_all add: Tick4_default) (simp_all add: world_of_default cells_def)
  from 1 2 3 4 5 show ?thesis by simp
qed

text \<open>
  Claim C5, amended: four ticks of the pattern \<open>{(1,0), (0,1), (1,1), (1,2), (2,2)}\<close> give
  the eight live cells \<open>{(1,0), (0,0), (2,1), (-1,1), (2,2), (-1,2), (0,3), (2,3)}\<close>, in the
  staged variant and in the single-file variant.
\<close>

theorem default_pattern_four_ticks:
  "map_of ((Tick ^^ 4) (world_of default_pattern)) =
     map_of (cells [(1, 0), (0, 0), (2, 1), (- 1, 1), (2, 2), (- 1, 2), (0, 3), (2, 3)])
   \<and> map_of ((generation ^^ 4) (world_of default_pattern)) =
     map_of (cells [(1, 0), (0, 0), (2, 1), (- 1, 1), (2, 2), (- 1, 2), (0, 3), (2, 3)])"
proof -
  have wf: "wf_world (world_of default_pattern)"
    by (simp add: world_of_default cells_def wf_world_def)
  have "map_of ((generation ^^ 4) (world_of default_pattern)) c =
        map_of ((Tick ^^ 4) (world_of default_pattern)) c" for c
    using wf by (rule map_of_generation_funpow)
  then show ?thesis
    by (simp add: fun_eq_iff Tick4_default)
qed

section \<open>What a method does to the maps that exist\<close>

text \<open>
  Claim C6 says that every stage, and \<open>Tick\<close> as a whole, leaves its input world unchanged.
  The \<open>Tick\<close> of the single-file variant stores the counts into its receiver:
  \<^verbatim>\<open>world[coord] = Cell{cell.alive, n}\<close>. Called on a map that holds the live cells
  \<open>(0, 0)\<close> and \<open>(1, 0)\<close> with \<open>n = 0\<close>, it leaves that map with \<open>n = 1\<close> in both cells.
\<close>

theorem Tick_in_place_counterexample:
  "content two_cells 0 =
     [(\<lparr>cx = 0, cy = 0\<rparr>, \<lparr>alive = True, cnt = 0\<rparr>), (\<lparr>cx = 1, cy = 0\<rparr>, \<lparr>alive = True, cnt = 0\<rparr>)]
   \<and> content (snd (Tick_in_place_at 0 two_cells)) 0 =
     [(\<lparr>cx = 0, cy = 0\<rparr>, \<lparr>alive = True, cnt = 1\<rparr>), (\<lparr>cx = 1, cy = 0\<rparr>, \<lparr>alive = True, cnt = 1\<rparr>)]
   \<and> content (snd (Tick_in_place_at 0 two_cells)) 0 \<noteq> content two_cells 0"
proof -
  have 0: "0 < next_addr two_cells"
    by (simp add: two_cells_def)
  have 1: "content two_cells 0 =
     [(\<lparr>cx = 0, cy = 0\<rparr>, \<lparr>alive = True, cnt = 0\<rparr>), (\<lparr>cx = 1, cy = 0\<rparr>, \<lparr>alive = True, cnt = 0\<rparr>)]"
    by (simp add: two_cells_def cells_def)
  have "content (snd (Tick_in_place_at 0 two_cells)) 0 = count_in_place (content two_cells 0)"
    using 0 by (simp add: Tick_in_place_at_eq [OF 0])
  also have "\<dots> =
     [(\<lparr>cx = 0, cy = 0\<rparr>, \<lparr>alive = True, cnt = 1\<rparr>), (\<lparr>cx = 1, cy = 0\<rparr>, \<lparr>alive = True, cnt = 1\<rparr>)]"
    unfolding 1 by (simp add: stages)
  finally have 2: "content (snd (Tick_in_place_at 0 two_cells)) 0 =
     [(\<lparr>cx = 0, cy = 0\<rparr>, \<lparr>alive = True, cnt = 1\<rparr>), (\<lparr>cx = 1, cy = 0\<rparr>, \<lparr>alive = True, cnt = 1\<rparr>)]" .
  from 1 2 show ?thesis by simp
qed

text \<open>
  Claim C6, amended. \<open>Inflate\<close>, \<open>CountLiveNeighbours\<close>, \<open>ApplyRules\<close>, \<open>Deflate\<close> and the
  staged \<open>Tick\<close> return a newly made map, which holds what the functions of the sections
  above compute from the entries of the receiver, and leave every map that existed before
  the call, the receiver among them, as it was. The \<open>Tick\<close> of the single-file variant
  returns a newly made map too and leaves every other map as it was, but it stores into its
  receiver: afterwards the receiver has the same keys with the same \<open>alive\<close> flags, and
  every \<open>n\<close> is the number of live neighbours. A whole generation
  \<open>Inflate().Tick().Deflate()\<close> of the single-file variant leaves every map that existed
  before as it was, since its \<open>Tick\<close> stores into the map that its \<open>Inflate\<close> made.
\<close>

theorem methods_frame:
  assumes "world < next_addr h"
  shows "keeps h (snd (Inflate_at world h))
    \<and> fst (Inflate_at world h) = next_addr h
    \<and> content (snd (Inflate_at world h)) (fst (Inflate_at world h)) = Inflate (content h world)
    \<and> keeps h (snd (CountLiveNeighbours_at world h))
    \<and> fst (CountLiveNeighbours_at world h) = next_addr h
    \<and> content (snd (CountLiveNeighbours_at world h)) (fst (CountLiveNeighbours_at world h)) =
        CountLiveNeighbours (content h world)
    \<and> keeps h (snd (ApplyRules_at world h))
    \<and> fst (ApplyRules_at world h) = next_addr h
    \<and> content (snd (ApplyRules_at world h)) (fst (ApplyRules_at world h)) =
        ApplyRules (content h world)
    \<and> keeps h (snd (Deflate_at world h))
    \<and> fst (Deflate_at world h) = next_addr h
    \<and> content (snd (Deflate_at world h)) (fst (Deflate_at world h)) = Deflate (content h world)
    \<and> keeps h (snd (Tick_at world h))
    \<and> next_addr h \<le> fst (Tick_at world h)
    \<and> content (snd (Tick_at world h)) (fst (Tick_at world h)) = Tick (content h world)
    \<and> keeps_but world h (snd (Tick_in_place_at world h))
    \<and> fst (Tick_in_place_at world h) = next_addr h
    \<and> content (snd (Tick_in_place_at world h)) (fst (Tick_in_place_at world h)) =
        Tick_in_place (content h world)
    \<and> content (snd (Tick_in_place_at world h)) world = count_in_place (content h world)
    \<and> (wf_world (content h world) \<longrightarrow>
         (\<forall>c. map_of (content (snd (Tick_in_place_at world h)) world) c =
            map_option (\<lambda>v. \<lparr>alive = alive v, cnt = live_neighbours (content h world) c\<rparr>)
              (map_of (content h world) c)))
    \<and> keeps h (snd (generation_at world h))
    \<and> next_addr h \<le> fst (generation_at world h)
    \<and> content (snd (generation_at world h)) (fst (generation_at world h)) =
        generation (content h world)"
proof -
  have 1: "keeps h (snd (Inflate_at world h))
    \<and> fst (Inflate_at world h) = next_addr h
    \<and> content (snd (Inflate_at world h)) (fst (Inflate_at world h)) = Inflate (content h world)"
    by (simp add: Inflate_at_eq [OF assms] keeps_def)
  have 2: "keeps h (snd (CountLiveNeighbours_at world h))
    \<and> fst (CountLiveNeighbours_at world h) = next_addr h
    \<and> content (snd (CountLiveNeighbours_at world h)) (fst (CountLiveNeighbours_at world h)) =
        CountLiveNeighbours (content h world)"
    by (simp add: CountLiveNeighbours_at_eq [OF assms] keeps_def)
  have 3: "keeps h (snd (ApplyRules_at world h))
    \<and> fst (ApplyRules_at world h) = next_addr h
    \<and> content (snd (ApplyRules_at world h)) (fst (ApplyRules_at world h)) =
        ApplyRules (content h world)"
    by (simp add: ApplyRules_at_eq [OF assms] keeps_def)
  have 4: "keeps h (snd (Deflate_at world h))
    \<and> fst (Deflate_at world h) = next_addr h
    \<and> content (snd (Deflate_at world h)) (fst (Deflate_at world h)) = Deflate (content h world)"
    by (simp add: Deflate_at_eq [OF assms] keeps_def)
  have 5: "keeps h (snd (Tick_at world h))
    \<and> next_addr h \<le> fst (Tick_at world h)
    \<and> content (snd (Tick_at world h)) (fst (Tick_at world h)) = Tick (content h world)"
    by (simp add: Tick_at_eq [OF assms] keeps_def)
  have 6: "keeps_but world h (snd (Tick_in_place_at world h))
    \<and> fst (Tick_in_place_at world h) = next_addr h
    \<and> content (snd (Tick_in_place_at world h)) (fst (Tick_in_place_at world h)) =
        Tick_in_place (content h world)
    \<and> content (snd (Tick_in_place_at world h)) world = count_in_place (content h world)"
    using assms by (simp add: Tick_in_place_at_eq [OF assms] keeps_but_def)
  have 7: "map_of (content (snd (Tick_in_place_at world h)) world) c =
            map_option (\<lambda>v. \<lparr>alive = alive v, cnt = live_neighbours (content h world) c\<rparr>)
              (map_of (content h world) c)"
    if "wf_world (content h world)" for c
    using that 6 by (simp add: map_of_count_in_place map_of_CountLiveNeighbours)
  have 8: "keeps h (snd (generation_at world h))
    \<and> next_addr h \<le> fst (generation_at world h)
    \<and> content (snd (generation_at world h)) (fst (generation_at world h)) =
        generation (content h world)"
    by (simp add: generation_at_eq [OF assms] keeps_def)
  from 1 2 3 4 5 6 7 8 show ?thesis by blast
qed

theorem methods_frame_witness:
  "0 < next_addr two_cells
   \<and> keeps two_cells (snd (Tick_at 0 two_cells))
   \<and> content (snd (Tick_at 0 two_cells)) 0 = content two_cells 0
   \<and> keeps two_cells (snd (generation_at 0 two_cells))
   \<and> content (snd (generation_at 0 two_cells)) 0 = content two_cells 0
   \<and> keeps_but 0 two_cells (snd (Tick_in_place_at 0 two_cells))
   \<and> content (snd (Tick_in_place_at 0 two_cells)) 0 = count_in_place (content two_cells 0)
   \<and> content (snd (Tick_at 0 two_cells)) (fst (Tick_at 0 two_cells)) = Tick (content two_cells 0)"
proof -
  have 0: "0 < next_addr two_cells"
    by (simp add: two_cells_def)
  have k: "keeps two_cells h' \<Longrightarrow> content h' 0 = content two_cells 0" for h'
    using 0 by (simp add: keeps_def)
  from 0 k methods_frame [OF 0] show ?thesis by simp
qed

section \<open>The empty world\<close>

text \<open>
  Claim C9. \<open>Tick\<close> is a total function on worlds: none of its loops can fail (a missing key
  reads as the zero cell, the additions wrap around), so the model has no error value.
  \<open>Tick\<close> of the empty world is the empty world, and so is any number of ticks of it; the
  same holds for the generations of the single-file variant.
\<close>

theorem Tick_empty:
  "Tick [] = [] \<and> (Tick ^^ k) [] = [] \<and> generation [] = [] \<and> (generation ^^ k) [] = []"
proof -
  have t: "Tick [] = []"
    by (simp add: Tick_def Inflate_def CountLiveNeighbours_def ApplyRules_def Deflate_def)
  have g: "generation [] = []"
    by (simp add: generation_def Inflate_def Tick_in_place_def count_in_place_def Deflate_def)
  have "(Tick ^^ k) [] = []"
    by (induction k) (simp_all add: t)
  moreover have "(generation ^^ k) [] = []"
    by (induction k) (simp_all add: g)
  ultimately show ?thesis using t g by simp
qed

section \<open>The scratch field of the input\<close>

text \<open>
  Claim C10. Two worlds with the same keys and the same \<open>alive\<close> flag at every key, which
  differ at most in the \<open>n\<close> fields, have the same \<open>Tick\<close>: the staged \<open>Tick\<close>, the
  in-place \<open>Tick\<close> of the single-file variant and its whole generation never read the
  \<open>n\<close> of the input.
\<close>

theorem Tick_ignores_count:
  assumes "wf_world w" and "wf_world w'"
    and "\<And>c. map_option alive (map_of w c) = map_option alive (map_of w' c)"
  shows "map_of (Tick w) = map_of (Tick w')
    \<and> map_of (generation w) = map_of (generation w')
    \<and> map_of (Tick_in_place w) = map_of (Tick_in_place w')"
proof -
  have L: "live w d = live w' d" for d
    using assms(3) [of d] by (cases "map_of w d"; cases "map_of w' d") (auto simp: live_def)
  have T: "map_of (Tick w) c = map_of (Tick w') c" for c
    using next_alive_cong [of w w' c] by (simp add: map_of_Tick assms(1,2) L)
  from T have 1: "map_of (Tick w) = map_of (Tick w')" by (rule ext)
  from T have 2: "map_of (generation w) = map_of (generation w')"
    by (intro ext) (simp add: map_of_generation)
  have N: "live_neighbours w c = live_neighbours w' c" for c
    by (rule live_neighbours_cong) (rule L)
  have 3: "map_of (Tick_in_place w) = map_of (Tick_in_place w')"
  proof
    fix c
    show "map_of (Tick_in_place w) c = map_of (Tick_in_place w') c"
      using assms(3) [of c]
      by (cases "map_of w c"; cases "map_of w' c")
        (simp_all add: map_of_Tick_in_place map_of_Rules_Count assms(1,2) N)
  qed
  from 1 2 3 show ?thesis by simp
qed

theorem Tick_ignores_count_witness:
  "wf_world [(\<lparr>cx = 0, cy = 0\<rparr>, \<lparr>alive = True, cnt = 5\<rparr>), (\<lparr>cx = 1, cy = 0\<rparr>, \<lparr>alive = False, cnt = 3\<rparr>)]
   \<and> wf_world [(\<lparr>cx = 0, cy = 0\<rparr>, \<lparr>alive = True, cnt = 0\<rparr>), (\<lparr>cx = 1, cy = 0\<rparr>, \<lparr>alive = False, cnt = - 1\<rparr>)]
   \<and> map_of (Tick [(\<lparr>cx = 0, cy = 0\<rparr>, \<lparr>alive = True, cnt = 5\<rparr>), (\<lparr>cx = 1, cy = 0\<rparr>, \<lparr>alive = False, cnt = 3\<rparr>)])
     = map_of (Tick [(\<lparr>cx = 0, cy = 0\<rparr>, \<lparr>alive = True, cnt = 0\<rparr>), (\<lparr>cx = 1, cy = 0\<rparr>, \<lparr>alive = False, cnt = - 1\<rparr>)])
   \<and> map_of (Tick_in_place [(\<lparr>cx = 0, cy = 0\<rparr>, \<lparr>alive = True, cnt = 5\<rparr>), (\<lparr>cx = 1, cy = 0\<rparr>, \<lparr>alive = False, cnt = 3\<rparr>)])
     = map_of (Tick_in_place [(\<lparr>cx = 0, cy = 0\<rparr>, \<lparr>alive = True, cnt = 0\<rparr>), (\<lparr>cx = 1, cy = 0\<rparr>, \<lparr>alive = False, cnt = - 1\<rparr>)])"
proof -
  let ?w = "[(\<lparr>cx = 0, cy = 0\<rparr>, \<lparr>alive = True, cnt = 5\<rparr>), (\<lparr>cx = 1, cy = 0\<rparr>, \<lparr>alive = False, cnt = 3\<rparr>)]"
  let ?w' = "[(\<lparr>cx = 0, cy = 0\<rparr>, \<lparr>alive = True, cnt = 0\<rparr>), (\<lparr>cx = 1, cy = 0\<rparr>, \<lparr>alive = False, cnt = - 1\<rparr>)]"
  have 1: "wf_world ?w" and 2: "wf_world ?w'"
    by (simp_all add: wf_world_def)
  have 3: "map_option alive (map_of ?w c) = map_option alive (map_of ?w' c)" for c
    by simp
  from 1 2 Tick_ignores_count [OF 1 2 3] show ?thesis by simp
qed

end
